theory Spec2Isabelle
  imports Complex_Main "HOL-Library.Char_ord" "HOL-Library.List_Lexorder" "HOL-Library.Multiset"
begin

section \<open>The invoice import pipeline of InvoiceViewer.tsx\<close>

text \<open>
  A shallow embedding of the upload component (\<^verbatim>\<open>UploadStore\<close> in
  \<^verbatim>\<open>src/components/UploadPage/InvoiceViewer.tsx\<close>): the CSV parser, the row
  validator, the extension filter of the file picker, the batch importer with its job
  record, the cascade deletion of a file, and the detaching of a PDF.

  A JavaScript string is a sequence of UTF-16 code units. The text given to the CSV
  parser is modelled as such, a list of code units of any value. The fields read by the
  validator, and the names, keys and messages of the handlers, are modelled as
  \<^typ>\<open>string\<close>, whose characters are the code units below 256: there the white space
  is the six ASCII blanks and the no-break space, the digits and the letters that the
  regular expressions and the currency codes look for are ASCII.
\<close>

subsection \<open>Strings\<close>

text \<open>
  The code units that \<^verbatim>\<open>String.prototype.trim\<close> and \<^verbatim>\<open>parseFloat\<close> take off: the
  \<^verbatim>\<open>WhiteSpace\<close> and \<^verbatim>\<open>LineTerminator\<close> productions of ECMAScript, which are tab,
  line feed, vertical tab, form feed, carriage return, space, no-break space, the other
  space separators of Unicode (U+1680, U+2000 to U+200A, U+202F, U+205F, U+3000), the
  line and paragraph separators U+2028 and U+2029, and the byte order mark U+FEFF.
\<close>

type_synonym ustring = "nat list"

definition isWhiteSpaceUnit :: "nat \<Rightarrow> bool" where
  "isWhiteSpaceUnit c =
     (c \<in> set [0x09, 0x0A, 0x0B, 0x0C, 0x0D, 0x20, 0xA0, 0x1680, 0x2028, 0x2029, 0x202F,
                0x205F, 0x3000, 0xFEFF] \<or>
      (0x2000 \<le> c \<and> c \<le> 0x200A))"

definition trimUnits :: "ustring \<Rightarrow> ustring" where
  "trimUnits s = rev (dropWhile isWhiteSpaceUnit (rev (dropWhile isWhiteSpaceUnit s)))"

text \<open>An ASCII literal of the source as code units.\<close>

definition units :: "string \<Rightarrow> ustring" where
  "units s = map of_char s"

text \<open>The same on the code units below 256.\<close>

definition isWhiteSpace :: "char \<Rightarrow> bool" where
  "isWhiteSpace c = (c \<in> set [CHR 0x09, CHR 0x0A, CHR 0x0B, CHR 0x0C, CHR 0x0D, CHR 0x20, CHR 0xA0])"

definition trimStart :: "string \<Rightarrow> string" where
  "trimStart s = dropWhile isWhiteSpace s"

text \<open>\<^verbatim>\<open>String.prototype.trim\<close>.\<close>

definition trim :: "string \<Rightarrow> string" where
  "trim s = rev (dropWhile isWhiteSpace (rev (dropWhile isWhiteSpace s)))"

definition isDigit :: "char \<Rightarrow> bool" where
  "isDigit c = (c \<in> set ''0123456789'')"

definition isHexDigit :: "char \<Rightarrow> bool" where
  "isHexDigit c = (c \<in> set ''0123456789abcdefABCDEF'')"

definition digitVal :: "char \<Rightarrow> nat" where
  "digitVal c = of_char c - 48"

definition digitsVal :: "string \<Rightarrow> nat" where
  "digitsVal s = foldl (\<lambda>a c. 10 * a + digitVal c) 0 s"

definition digitChar :: "nat \<Rightarrow> char" where
  "digitChar n = char_of (48 + n)"

text \<open>\<^verbatim>\<open>String(n)\<close> for a non-negative integer, as the template literals print a row number.\<close>

fun showNat :: "nat \<Rightarrow> string" where
  "showNat n = (if n < 10 then [digitChar n] else showNat (n div 10) @ [digitChar (n mod 10)])"

declare showNat.simps [simp del]

text \<open>
  \<^verbatim>\<open>toUpperCase\<close> and \<^verbatim>\<open>toLowerCase\<close>, for what the code asks of their results: whether
  one is a currency code, whether one ends in an extension. Only the ASCII letters are
  mapped. A letter from 128 to 255 has no ASCII letter in its lower case, and in its upper
  case only the sharp s has, which becomes SS, a pair that no currency code holds: to
  map these letters as well would change no answer.
\<close>

definition toUpperChar :: "char \<Rightarrow> char" where
  "toUpperChar c = (if CHR ''a'' \<le> c \<and> c \<le> CHR ''z'' then char_of (of_char c - (32::nat)) else c)"

definition toUpperCase :: "string \<Rightarrow> string" where
  "toUpperCase s = map toUpperChar s"

definition toLowerChar :: "char \<Rightarrow> char" where
  "toLowerChar c = (if CHR ''A'' \<le> c \<and> c \<le> CHR ''Z'' then char_of (of_char c + (32::nat)) else c)"

definition toLowerCase :: "string \<Rightarrow> string" where
  "toLowerCase s = map toLowerChar s"

text \<open>\<^verbatim>\<open>s.split(sep)\<close> for a one-character separator: never the empty list.\<close>

fun split :: "'a \<Rightarrow> 'a list \<Rightarrow> 'a list list" where
  "split sep [] = [[]]"
| "split sep (c # cs) =
     (if c = sep then [] # split sep cs
      else (case split sep cs of [] \<Rightarrow> [[c]] | f # fs \<Rightarrow> (c # f) # fs))"

text \<open>\<^verbatim>\<open>xs.join(sep)\<close>.\<close>

fun join :: "'a list \<Rightarrow> 'a list list \<Rightarrow> 'a list" where
  "join sep [] = []"
| "join sep [x] = x"
| "join sep (x # y # ys) = x @ sep @ join sep (y # ys)"

text \<open>
  The regular expressions of the source use only single-character classes with fixed
  repetition counts, so a match is a left-to-right walk that returns what is left of
  the subject.
\<close>

definition cls :: "(char \<Rightarrow> bool) \<Rightarrow> string \<Rightarrow> string option" where
  "cls P s = (case s of [] \<Rightarrow> None | c # r \<Rightarrow> if P c then Some r else None)"

fun rep :: "nat \<Rightarrow> (char \<Rightarrow> bool) \<Rightarrow> string \<Rightarrow> string option" where
  "rep 0 P s = Some s"
| "rep (Suc n) P s = Option.bind (cls P s) (rep n P)"

definition atEnd :: "string option \<Rightarrow> bool" where
  "atEnd r = (r = Some [])"

text \<open>JavaScript truthiness of a property read that is a string or \<^verbatim>\<open>undefined\<close>.\<close>

definition truthy :: "string option \<Rightarrow> bool" where
  "truthy v = (case v of None \<Rightarrow> False | Some s \<Rightarrow> s \<noteq> [])"

subsection \<open>Numbers\<close>

text \<open>
  A JavaScript number. \<open>Fin v\<close> stands for the binary64 value nearest to the rational
  \<open>v\<close>: rounding inside the finite range is not carried out, since it changes neither
  the sign nor the finiteness of a value; overflow to an infinity and underflow to zero
  are.
\<close>

datatype js_number = NaN | PosInf | NegInf | Fin rat

definition isNaN :: "js_number \<Rightarrow> bool" where
  "isNaN x = (x = NaN)"

definition isFinite :: "js_number \<Rightarrow> bool" where
  "isFinite x = (case x of Fin v \<Rightarrow> True | _ \<Rightarrow> False)"

text \<open>\<^verbatim>\<open>x <= 0\<close> on numbers: false when \<open>x\<close> is NaN.\<close>

definition le_zero :: "js_number \<Rightarrow> bool" where
  "le_zero x = (case x of NaN \<Rightarrow> False | PosInf \<Rightarrow> False | NegInf \<Rightarrow> True | Fin v \<Rightarrow> v \<le> 0)"

definition gt_zero :: "js_number \<Rightarrow> bool" where
  "gt_zero x = (case x of NaN \<Rightarrow> False | PosInf \<Rightarrow> True | NegInf \<Rightarrow> False | Fin v \<Rightarrow> 0 < v)"

definition toBinary64 :: "bool \<Rightarrow> rat \<Rightarrow> js_number" where
  "toBinary64 neg v =
     (if 2 ^ 1024 - 2 ^ 970 \<le> v then (if neg then NegInf else PosInf)
      else if v \<le> 1 / 2 ^ 1075 then Fin 0
      else Fin (if neg then - v else v))"

definition readSign :: "string \<Rightarrow> bool \<times> string" where
  "readSign s =
     (case s of [] \<Rightarrow> (False, s)
      | c # r \<Rightarrow> if c = CHR ''-'' then (True, r) else if c = CHR ''+'' then (False, r) else (False, s))"

definition readFraction :: "string \<Rightarrow> string \<times> string" where
  "readFraction s =
     (case s of [] \<Rightarrow> ([], s)
      | c # r \<Rightarrow> if c = CHR ''.'' then (takeWhile isDigit r, dropWhile isDigit r) else ([], s))"

definition readExponent :: "string \<Rightarrow> int" where
  "readExponent s =
     (case s of [] \<Rightarrow> 0
      | c # r \<Rightarrow>
          if c = CHR ''e'' \<or> c = CHR ''E'' then
            (let (neg, t) = readSign r; ds = takeWhile isDigit t
             in if ds = [] then 0 else if neg then - int (digitsVal ds) else int (digitsVal ds))
          else 0)"

text \<open>
  The global \<^verbatim>\<open>parseFloat\<close>, after ECMAScript: leading white space is skipped, the
  longest prefix that is a \<^verbatim>\<open>StrDecimalLiteral\<close> is read, whatever follows it is ignored,
  and there being no such prefix gives NaN.
\<close>

definition parseFloat :: "string \<Rightarrow> js_number" where
  "parseFloat inputString =
     (let (neg, u) = readSign (trimStart inputString) in
      if take 8 u = ''Infinity'' then (if neg then NegInf else PosInf)
      else
        let ip = takeWhile isDigit u;
            r1 = dropWhile isDigit u;
            (fp, r2) = readFraction r1
        in if ip = [] \<and> fp = [] then NaN
           else toBinary64 neg
                  ((of_nat (digitsVal ip) + of_nat (digitsVal fp) / 10 ^ length fp)
                   * power_int 10 (readExponent r2)))"

subsection \<open>Dates\<close>

text \<open>
  \<^verbatim>\<open>new Date(s)\<close> on the date-only form \<^verbatim>\<open>YYYY-MM-DD\<close>, which ECMAScript reads as
  midnight UTC. Engines differ on a day that the month does not have (30 February):
  some reject it, some accept any day up to 31 and roll over into the next month; both
  are modelled. Every other form of string is left to the engine by ECMAScript; the only
  caller of the constructor, \<open>isValidDate\<close>, rejects such a string by its regular
  expression whatever the engine makes of it, so the model gives the invalid date there.
\<close>

datatype date_engine = DayInMonth | DayUpTo31

type_synonym date = "nat \<times> nat \<times> nat"

definition date_regex :: "string \<Rightarrow> bool" where
  "date_regex s =
     atEnd (Option.bind (Option.bind (Option.bind (Option.bind (rep 4 isDigit s)
       (cls (\<lambda>c. c = CHR ''-''))) (rep 2 isDigit)) (cls (\<lambda>c. c = CHR ''-''))) (rep 2 isDigit))"

definition isLeap :: "nat \<Rightarrow> bool" where
  "isLeap y = (y mod 4 = 0 \<and> (y mod 100 \<noteq> 0 \<or> y mod 400 = 0))"

definition daysInMonth :: "nat \<Rightarrow> nat \<Rightarrow> nat" where
  "daysInMonth y m =
     (if m = 2 then (if isLeap y then 29 else 28)
      else if m = 4 \<or> m = 6 \<or> m = 9 \<or> m = 11 then 30 else 31)"

definition newDate :: "date_engine \<Rightarrow> string \<Rightarrow> date option" where
  "newDate eng s =
     (if date_regex s then
        (let y = digitsVal (take 4 s); m = digitsVal (take 2 (drop 5 s)); d = digitsVal (drop 8 s)
         in if 1 \<le> m \<and> m \<le> 12 \<and> 1 \<le> d \<and> d \<le> 31 then
              (if d \<le> daysInMonth y m then Some (y, m, d)
               else (case eng of DayInMonth \<Rightarrow> None
                     | DayUpTo31 \<Rightarrow> Some (y, m + 1, d - daysInMonth y m)))
            else None)
      else None)"

definition pad2 :: "nat \<Rightarrow> string" where
  "pad2 n = [digitChar (n div 10 mod 10), digitChar (n mod 10)]"

definition pad4 :: "nat \<Rightarrow> string" where
  "pad4 n = [digitChar (n div 1000 mod 10), digitChar (n div 100 mod 10),
             digitChar (n div 10 mod 10), digitChar (n mod 10)]"

text \<open>\<^verbatim>\<open>date.toISOString().split('T')[0]\<close> for a year from 0 to 9999.\<close>

definition toISODate :: "date \<Rightarrow> string" where
  "toISODate dt = (case dt of (y, m, d) \<Rightarrow> pad4 y @ ''-'' @ pad2 m @ ''-'' @ pad2 d)"

text \<open>Calendar order of two dates, and the dates whose parts fit their columns.\<close>

definition date_before :: "date \<Rightarrow> date \<Rightarrow> bool" where
  "date_before a b =
     (case a of (y1, m1, d1) \<Rightarrow> case b of (y2, m2, d2) \<Rightarrow>
        y1 < y2 \<or> (y1 = y2 \<and> (m1 < m2 \<or> (m1 = m2 \<and> d1 < d2))))"

definition wf_date :: "date \<Rightarrow> bool" where
  "wf_date a = (case a of (y, m, d) \<Rightarrow> y < 10000 \<and> m < 100 \<and> d < 100)"

definition isValidDate :: "date_engine \<Rightarrow> string \<Rightarrow> bool" where
  "isValidDate eng dateString =
     (case newDate eng dateString of None \<Rightarrow> False | Some date \<Rightarrow> date_regex dateString)"

text \<open>\<^verbatim>\<open>toISOString\<close> throws a RangeError on an invalid date: the result \<open>None\<close>.\<close>

definition formatDateString :: "date_engine \<Rightarrow> string \<Rightarrow> string option" where
  "formatDateString eng dateString = map_option toISODate (newDate eng dateString)"

subsection \<open>The row validator\<close>

text \<open>
  The row as the validator reads it: the names it has with their values; a name that is
  not there reads as \<^verbatim>\<open>undefined\<close>.
\<close>

type_synonym CsvRow = "(string \<times> string) list"

record InvoiceData =
  invoiceId :: string
  sellerId :: string
  debtorId :: string
  currency :: string
  amount :: js_number
  product :: string
  issueDate :: string
  dueDate :: string
  isValid :: bool
  validationErrors :: "string list"

definition isValidUUID :: "string \<Rightarrow> bool" where
  "isValidUUID uuid =
     atEnd (Option.bind (Option.bind (Option.bind (Option.bind (Option.bind (Option.bind
           (Option.bind (Option.bind (Option.bind (Option.bind (rep 8 isHexDigit uuid)
       (cls (\<lambda>c. c = CHR ''-''))) (rep 4 isHexDigit))
       (cls (\<lambda>c. c = CHR ''-''))) (cls (\<lambda>c. c \<in> set ''12345''))) (rep 3 isHexDigit))
       (cls (\<lambda>c. c = CHR ''-''))) (cls (\<lambda>c. c \<in> set ''89abAB''))) (rep 3 isHexDigit))
       (cls (\<lambda>c. c = CHR ''-''))) (rep 12 isHexDigit))"

definition validCurrencies :: "string list" where
  "validCurrencies = [''USD'', ''EUR'', ''GBP'', ''JPY'', ''CAD'', ''AUD'', ''CHF'', ''CNY'']"

definition emptyInvoice :: InvoiceData where
  "emptyInvoice = \<lparr>invoiceId = [], sellerId = [], debtorId = [], currency = [],
     amount = Fin 0, product = [], issueDate = [], dueDate = [], isValid = True,
     validationErrors = []\<rparr>"

text \<open>
  The validator mutates a list of errors and the invoice under construction; each block
  of the source is one step on that pair. \<open>rowMsg n t\<close> is the template
  \<^verbatim>\<open>`Row ${rowNumber}: t`\<close>.
\<close>

type_synonym vstate = "string list \<times> InvoiceData"

definition rowMsg :: "nat \<Rightarrow> string \<Rightarrow> string" where
  "rowMsg rowNumber t = ''Row '' @ showNat rowNumber @ '': '' @ t"

definition validate_invoice_id :: "CsvRow \<Rightarrow> nat \<Rightarrow> vstate \<Rightarrow> vstate" where
  "validate_invoice_id row rowNumber st =
     (case st of (errors, invoice) \<Rightarrow>
        (case map_of row ''invoice_id'' of
           Some v \<Rightarrow>
             if v = [] \<or> \<not> isValidUUID v
             then (errors @ [rowMsg rowNumber ''Invalid or missing invoice_id (must be UUID format)''], invoice)
             else (errors, invoice\<lparr>invoiceId := v\<rparr>)
         | None \<Rightarrow> (errors @ [rowMsg rowNumber ''Invalid or missing invoice_id (must be UUID format)''], invoice)))"

definition validate_seller_id :: "CsvRow \<Rightarrow> nat \<Rightarrow> vstate \<Rightarrow> vstate" where
  "validate_seller_id row rowNumber st =
     (case st of (errors, invoice) \<Rightarrow>
        (case map_of row ''seller_id'' of
           Some v \<Rightarrow>
             if v = [] \<or> \<not> isValidUUID v
             then (errors @ [rowMsg rowNumber ''Invalid or missing seller_id (must be UUID format)''], invoice)
             else (errors, invoice\<lparr>sellerId := v\<rparr>)
         | None \<Rightarrow> (errors @ [rowMsg rowNumber ''Invalid or missing seller_id (must be UUID format)''], invoice)))"

definition validate_debtor_id :: "CsvRow \<Rightarrow> nat \<Rightarrow> vstate \<Rightarrow> vstate" where
  "validate_debtor_id row rowNumber st =
     (case st of (errors, invoice) \<Rightarrow>
        (case map_of row ''debtor_id'' of
           Some v \<Rightarrow>
             if v = [] \<or> \<not> isValidUUID v
             then (errors @ [rowMsg rowNumber ''Invalid or missing debtor_id (must be UUID format)''], invoice)
             else (errors, invoice\<lparr>debtorId := v\<rparr>)
         | None \<Rightarrow> (errors @ [rowMsg rowNumber ''Invalid or missing debtor_id (must be UUID format)''], invoice)))"

definition validate_currency :: "CsvRow \<Rightarrow> nat \<Rightarrow> vstate \<Rightarrow> vstate" where
  "validate_currency row rowNumber st =
     (case st of (errors, invoice) \<Rightarrow>
        (case map_of row ''currency'' of
           Some v \<Rightarrow>
             if v = [] \<or> toUpperCase v \<notin> set validCurrencies
             then (errors @ [rowMsg rowNumber (''Invalid currency. Must be one of: '' @ join '', '' validCurrencies)], invoice)
             else (errors, invoice\<lparr>currency := toUpperCase v\<rparr>)
         | None \<Rightarrow> (errors @ [rowMsg rowNumber (''Invalid currency. Must be one of: '' @ join '', '' validCurrencies)], invoice)))"

text \<open>
  \<^verbatim>\<open>parseFloat(row.amount)\<close>: a missing property is \<^verbatim>\<open>undefined\<close>, which
  \<^verbatim>\<open>parseFloat\<close> turns into the string \<^verbatim>\<open>"undefined"\<close> first.
\<close>

definition validate_amount :: "CsvRow \<Rightarrow> nat \<Rightarrow> vstate \<Rightarrow> vstate" where
  "validate_amount row rowNumber st =
     (case st of (errors, invoice) \<Rightarrow>
        (let amount = parseFloat (case map_of row ''amount'' of None \<Rightarrow> ''undefined'' | Some v \<Rightarrow> v)
         in if isNaN amount \<or> le_zero amount
            then (errors @ [rowMsg rowNumber ''Invalid amount (must be positive number)''], invoice)
            else (errors, invoice\<lparr>amount := amount\<rparr>)))"

definition validate_product :: "CsvRow \<Rightarrow> nat \<Rightarrow> vstate \<Rightarrow> vstate" where
  "validate_product row rowNumber st =
     (case st of (errors, invoice) \<Rightarrow>
        (case map_of row ''product'' of
           Some v \<Rightarrow>
             if v = [] \<or> length (trim v) = 0
             then (errors @ [rowMsg rowNumber ''Product field is required''], invoice)
             else (errors, invoice\<lparr>product := trim v\<rparr>)
         | None \<Rightarrow> (errors @ [rowMsg rowNumber ''Product field is required''], invoice)))"

definition validate_issue_date :: "date_engine \<Rightarrow> CsvRow \<Rightarrow> nat \<Rightarrow> vstate \<Rightarrow> vstate option" where
  "validate_issue_date eng row rowNumber st =
     (case st of (errors, invoice) \<Rightarrow>
        (case map_of row ''issue_date'' of
           Some v \<Rightarrow>
             if v = [] \<or> \<not> isValidDate eng v
             then Some (errors @ [rowMsg rowNumber ''Invalid issue_date (must be YYYY-MM-DD format)''], invoice)
             else map_option (\<lambda>f. (errors, invoice\<lparr>issueDate := f\<rparr>)) (formatDateString eng v)
         | None \<Rightarrow> Some (errors @ [rowMsg rowNumber ''Invalid issue_date (must be YYYY-MM-DD format)''], invoice)))"

definition validate_due_date :: "date_engine \<Rightarrow> CsvRow \<Rightarrow> nat \<Rightarrow> vstate \<Rightarrow> vstate option" where
  "validate_due_date eng row rowNumber st =
     (case st of (errors, invoice) \<Rightarrow>
        (case map_of row ''due_date'' of
           Some v \<Rightarrow>
             if v = [] \<or> \<not> isValidDate eng v
             then Some (errors @ [rowMsg rowNumber ''Invalid due_date (must be YYYY-MM-DD format)''], invoice)
             else map_option (\<lambda>f. (errors, invoice\<lparr>dueDate := f\<rparr>)) (formatDateString eng v)
         | None \<Rightarrow> Some (errors @ [rowMsg rowNumber ''Invalid due_date (must be YYYY-MM-DD format)''], invoice)))"

definition validate_date_order :: "nat \<Rightarrow> vstate \<Rightarrow> vstate" where
  "validate_date_order rowNumber st =
     (case st of (errors, invoice) \<Rightarrow>
        if issueDate invoice \<noteq> [] \<and> dueDate invoice \<noteq> [] \<and> dueDate invoice \<le> issueDate invoice
        then (errors @ [rowMsg rowNumber ''Due date must be after issue date''], invoice)
        else (errors, invoice))"

text \<open>What no step before \<open>finish\<close> writes: the validity flag and the stored errors.\<close>

definition untouched :: "vstate \<Rightarrow> vstate \<Rightarrow> bool" where
  "untouched st st' = (isValid (snd st') = isValid (snd st) \<and> validationErrors (snd st') = validationErrors (snd st))"

definition finish :: "vstate \<Rightarrow> InvoiceData" where
  "finish st =
     (case st of (errors, invoice) \<Rightarrow>
        if length errors > 0 then invoice\<lparr>isValid := False, validationErrors := errors\<rparr>
        else invoice)"

text \<open>The state the six field checks before the dates leave behind.\<close>

definition before_dates :: "CsvRow \<Rightarrow> nat \<Rightarrow> vstate" where
  "before_dates row rowNumber =
     validate_product row rowNumber
       (validate_amount row rowNumber
         (validate_currency row rowNumber
           (validate_debtor_id row rowNumber
             (validate_seller_id row rowNumber
               (validate_invoice_id row rowNumber ([], emptyInvoice))))))"

text \<open>Rows used to run the validator: a well-formed one, and one that is due before its issue.\<close>

definition sample_row :: CsvRow where
  "sample_row =
     [(''invoice_id'', ''123e4567-e89b-12d3-a456-426614174000''),
      (''seller_id'', ''123e4567-e89b-12d3-a456-426614174000''),
      (''debtor_id'', ''123e4567-e89b-12d3-a456-426614174000''),
      (''currency'', ''usd''), (''amount'', ''0.01''), (''product'', '' bolts ''),
      (''issue_date'', ''2024-01-31''), (''due_date'', ''2024-02-29'')]"

definition sample_invoice :: InvoiceData where
  "sample_invoice = \<lparr>invoiceId = ''123e4567-e89b-12d3-a456-426614174000'',
     sellerId = ''123e4567-e89b-12d3-a456-426614174000'',
     debtorId = ''123e4567-e89b-12d3-a456-426614174000'',
     currency = ''USD'', amount = Fin (1 / 100), product = ''bolts'',
     issueDate = ''2024-01-31'', dueDate = ''2024-02-29'', isValid = True,
     validationErrors = []\<rparr>"

definition infinite_row :: CsvRow where
  "infinite_row =
     [(''invoice_id'', ''123e4567-e89b-12d3-a456-426614174000''),
      (''seller_id'', ''123e4567-e89b-12d3-a456-426614174000''),
      (''debtor_id'', ''123e4567-e89b-12d3-a456-426614174000''),
      (''currency'', ''usd''), (''amount'', ''Infinity''), (''product'', '' bolts ''),
      (''issue_date'', ''2024-01-31''), (''due_date'', ''2024-02-29'')]"

definition late_row :: CsvRow where
  "late_row =
     [(''invoice_id'', ''123e4567-e89b-12d3-a456-426614174000''),
      (''seller_id'', ''123e4567-e89b-12d3-a456-426614174000''),
      (''debtor_id'', ''123e4567-e89b-12d3-a456-426614174000''),
      (''currency'', ''EUR''), (''amount'', ''12.5''), (''product'', ''nuts''),
      (''issue_date'', ''2024-03-01''), (''due_date'', ''2024-03-01'')]"

text \<open>
  \<open>validateInvoiceData\<close>: \<open>None\<close> is the RangeError of \<open>formatDateString\<close> leaving the
  function.
\<close>

definition validateInvoiceData :: "date_engine \<Rightarrow> CsvRow \<Rightarrow> nat \<Rightarrow> InvoiceData option" where
  "validateInvoiceData eng row rowNumber =
     map_option (\<lambda>st. finish (validate_date_order rowNumber st))
       (Option.bind
          (validate_issue_date eng row rowNumber
             (validate_product row rowNumber
               (validate_amount row rowNumber
                 (validate_currency row rowNumber
                   (validate_debtor_id row rowNumber
                     (validate_seller_id row rowNumber
                       (validate_invoice_id row rowNumber ([], emptyInvoice))))))))
          (validate_due_date eng row rowNumber))"

subsection \<open>The CSV parser\<close>

text \<open>\<^verbatim>\<open>s.replace(/"/g, '')\<close>: every double quote is dropped, wherever it stands.\<close>

definition removeQuotes :: "ustring \<Rightarrow> ustring" where
  "removeQuotes s = filter (\<lambda>c. c \<noteq> 0x22) s"

text \<open>\<^verbatim>\<open>line.split(',').map(v => v.trim().replace(/"/g, ''))\<close>.\<close>

definition splitFields :: "ustring \<Rightarrow> ustring list" where
  "splitFields line = map (\<lambda>v. removeQuotes (trimUnits v)) (split 0x2C line)"

text \<open>\<^verbatim>\<open>values[index] || ''\<close>: a missing field and an empty one both give the empty string.\<close>

definition fieldAt :: "ustring list \<Rightarrow> nat \<Rightarrow> ustring" where
  "fieldAt values index = (if index < length values then values ! index else [])"

text \<open>
  The row is a plain object, \<^verbatim>\<open>{}\<close>: a finite map from property names to strings, with
  no order that the parser or the validator reads. \<^verbatim>\<open>row[header] = v\<close> stores \<open>v\<close> under
  \<open>header\<close>, replacing what was there, for every name but one: \<^verbatim>\<open>__proto__\<close> is an
  accessor that the object inherits, whose setter ignores a string, so that this
  assignment leaves the object as it was.
\<close>

type_synonym CsvObject = "ustring \<rightharpoonup> ustring"

definition assign :: "CsvObject \<Rightarrow> ustring \<Rightarrow> ustring \<Rightarrow> CsvObject" where
  "assign row key v = (if key = units ''__proto__'' then row else row(key \<mapsto> v))"

text \<open>\<^verbatim>\<open>headers.forEach((header, index) => { row[header] = values[index] || ''; })\<close>.\<close>

definition makeRow :: "ustring list \<Rightarrow> ustring list \<Rightarrow> CsvObject" where
  "makeRow headers values =
     foldl (\<lambda>row (header, index). assign row header (fieldAt values index)) Map.empty
       (zip headers [0 ..< length headers])"

text \<open>\<^verbatim>\<open>csvText.split('\n').filter(line => line.trim())\<close>.\<close>

definition nonBlankLines :: "ustring \<Rightarrow> ustring list" where
  "nonBlankLines csvText = filter (\<lambda>line. trimUnits line \<noteq> []) (split 0x0A csvText)"

definition parseCSV :: "ustring \<Rightarrow> CsvObject list" where
  "parseCSV csvText =
     (case nonBlankLines csvText of
        [] \<Rightarrow> []
      | [h] \<Rightarrow> []
      | h # l # ls \<Rightarrow>
          (let headers = splitFields h
           in map (\<lambda>line. makeRow headers (splitFields line)) (l # ls)))"

text \<open>
  The parser as the specification words it, to compare with: each field has only its
  surrounding white space and quotes taken off.
\<close>

definition stripSurrounding :: "ustring \<Rightarrow> ustring" where
  "stripSurrounding s =
     rev (dropWhile (\<lambda>c. isWhiteSpaceUnit c \<or> c = 0x22)
       (rev (dropWhile (\<lambda>c. isWhiteSpaceUnit c \<or> c = 0x22) s)))"

definition spec_splitFields :: "ustring \<Rightarrow> ustring list" where
  "spec_splitFields line = map stripSurrounding (split 0x2C line)"

definition spec_parseCSV :: "ustring \<Rightarrow> CsvObject list" where
  "spec_parseCSV csvText =
     (case nonBlankLines csvText of
        [] \<Rightarrow> []
      | [h] \<Rightarrow> []
      | h # l # ls \<Rightarrow>
          (let headers = spec_splitFields h
           in map (\<lambda>line. makeRow headers (spec_splitFields line)) (l # ls)))"

text \<open>
  Two texts to run the parser on. The first starts with a byte order mark, has quoted
  fields, a line of a no-break space and a carriage return alone, lines that end in a
  carriage return, and a last line with two fields for three headers. The header of the
  second has quotes inside a field.
\<close>

definition sample_header :: ustring where
  "sample_header =
     [0xFEFF] @ units (''invoice_id, '' @ [CHR 0x22] @ ''amount'' @ [CHR 0x22] @ '' ,product'')"

definition sample_line :: ustring where
  "sample_line = units ([CHR 0x22] @ ''a-1'' @ [CHR 0x22] @ '',5,bolts'')"

definition sample_field :: ustring where
  "sample_field = [0x20, 0x22] @ units ''amount'' @ [0x22, 0xA0]"

definition sample_csv :: ustring where
  "sample_csv =
     sample_header @ [0x0A] @ [0xA0, 0x0D, 0x0A] @ sample_line @ [0x0D, 0x0A] @
     units ''a-2,7'' @ [0x0A]"

definition quoted_csv :: ustring where
  "quoted_csv = units (''item,size '' @ [CHR 0x22] @ ''in'' @ [CHR 0x22]) @ [0x0A] @ units ''bolt,3''"

subsection \<open>The extension filter of the file picker\<close>

text \<open>\<^verbatim>\<open>String.prototype.endsWith\<close>.\<close>

definition endsWith :: "string \<Rightarrow> string \<Rightarrow> bool" where
  "endsWith s suffix = (length suffix \<le> length s \<and> drop (length s - length suffix) s = suffix)"

text \<open>
  \<^verbatim>\<open>/\.(csv|xlsx)$/i.test(file.name)\<close>: the name ends in \<^verbatim>\<open>.csv\<close> or \<^verbatim>\<open>.xlsx\<close>, in any
  mix of cases. A file is modelled by its name, the only property the filter reads.
\<close>

definition isInvoiceFile :: "string \<Rightarrow> bool" where
  "isInvoiceFile name = (endsWith (toLowerCase name) ''.csv'' \<or> endsWith (toLowerCase name) ''.xlsx'')"

text \<open>The extensions the \<^verbatim>\<open>accept\<close> attribute of the file input offers: \<^verbatim>\<open>.csv,.xlsx,.xls\<close>.\<close>

definition pickerAccepts :: "string \<Rightarrow> bool" where
  "pickerAccepts name =
     (endsWith (toLowerCase name) ''.csv'' \<or> endsWith (toLowerCase name) ''.xlsx'' \<or>
      endsWith (toLowerCase name) ''.xls'')"

text \<open>
  \<open>handleFileSelect\<close> up to its upload loop: no selection, a rejection with the message
  given to \<^verbatim>\<open>setError\<close> and nothing uploaded, or the files that enter the loop, which
  uploads and processes them one after the other.
\<close>

datatype select_result = NoSelection | Rejected string | Uploading "string list"

definition handleFileSelect :: "string list option \<Rightarrow> select_result" where
  "handleFileSelect selectedFiles =
     (case selectedFiles of
        None \<Rightarrow> NoSelection
      | Some fileArray \<Rightarrow>
          (let invoiceFiles = filter isInvoiceFile fileArray
           in if length invoiceFiles = 0
              then Rejected ''Please select CSV or Excel files containing invoice data''
              else if length invoiceFiles \<noteq> length fileArray
              then Rejected ''Only CSV and Excel files are supported for invoice processing''
              else Uploading invoiceFiles))"

subsection \<open>The batch importer and the job record\<close>

datatype file_type = CSV | XLSX

datatype job_status = PENDING | PROCESSING | COMPLETED | FAILED

text \<open>
  What a write to the job record carries of its status, its three counts and its error
  message; a field that the write does not name is \<open>None\<close>. The time stamps, which come
  from the clock, are left out.
\<close>

record job_write =
  jw_status :: job_status
  jw_totalInvoices :: "nat option"
  jw_successfulInvoices :: "nat option"
  jw_failedInvoices :: "nat option"
  jw_errorMessage :: "string option"

text \<open>
  The requests that \<open>processInvoiceFile\<close> sends to the store and the answers it waits for,
  in the order in which they happen. \<open>BatchStart k i n\<close> is the loop entering batch number
  \<open>k\<close>, the slice of \<open>n\<close> rows that starts at index \<open>i\<close> (what the loop logs on entry).
  Rows are named by their \<^verbatim>\<open>globalIndex\<close>, counted from 1.
\<close>

datatype event =
    JobCreate string file_type string job_write
  | JobUpdate string job_write
  | BatchStart nat nat nat
  | CreateIssued nat
  | CreateSettled nat

text \<open>
  The answer of the store to \<^verbatim>\<open>Invoice.create\<close>: data, a list of errors (their messages; an
  error without a message is the empty string), or an exception (with the message of
  the \<^verbatim>\<open>Error\<close>, if it is one).
\<close>

datatype create_result = Created | CreateErrors "string list" | CreateThrew "string option"

datatype job_create_result =
    JobCreateThrew string
  | JobCreateResult "string list option" "string option"

text \<open>
  The world around one run: the answer to the job creation (errors and the id of the new
  job), the outcome of \<open>downloadAndParseFile\<close> (an exception with its message, or the
  validated rows), the answer to each row creation, and the order in which the pending
  creations of a batch settle.
\<close>

record import_env =
  jobCreateAnswer :: job_create_result
  downloadAnswer :: "string + InvoiceData list"
  createAnswer :: "nat \<Rightarrow> create_result"
  settleOrder :: "(nat \<times> InvoiceData) list \<Rightarrow> (nat \<times> InvoiceData) list"

record ProcessingError =
  pe_row :: nat
  pe_invoice_id :: "string option"
  pe_errors :: "string list"

record import_state =
  successfulCount :: nat
  failedCount :: nat
  allErrors :: "ProcessingError list"
  trace :: "event list"

definition batchSize :: nat where
  "batchSize = 25"

text \<open>\<^verbatim>\<open>x || 'Unknown error'\<close> on a message.\<close>

definition orUnknown :: "string \<Rightarrow> string" where
  "orUnknown m = (if m = [] then ''Unknown error'' else m)"

text \<open>
  The callback of \<^verbatim>\<open>batch.map\<close> runs for every row of the batch up to its first
  \<^verbatim>\<open>await\<close>: an invalid row is counted as failed at once, a valid row has its creation
  sent.
\<close>

definition startRow :: "nat \<Rightarrow> InvoiceData \<Rightarrow> import_state \<Rightarrow> import_state" where
  "startRow globalIndex invoice st =
     (if \<not> isValid invoice
      then st\<lparr>failedCount := failedCount st + 1,
              allErrors := allErrors st @
                [\<lparr>pe_row = globalIndex, pe_invoice_id = None, pe_errors = validationErrors invoice\<rparr>]\<rparr>
      else st\<lparr>trace := trace st @ [CreateIssued globalIndex]\<rparr>)"

text \<open>The rest of the callback, run when the creation of the row settles.\<close>

definition settleRow :: "import_env \<Rightarrow> nat \<Rightarrow> InvoiceData \<Rightarrow> import_state \<Rightarrow> import_state" where
  "settleRow env globalIndex invoice st =
     (let st' = st\<lparr>trace := trace st @ [CreateSettled globalIndex]\<rparr>
      in case createAnswer env globalIndex of
           Created \<Rightarrow> st'\<lparr>successfulCount := successfulCount st' + 1\<rparr>
         | CreateErrors es \<Rightarrow>
             st'\<lparr>failedCount := failedCount st' + 1,
                 allErrors := allErrors st' @
                   [\<lparr>pe_row = globalIndex, pe_invoice_id = Some (invoiceId invoice),
                     pe_errors = map orUnknown es\<rparr>]\<rparr>
         | CreateThrew m \<Rightarrow>
             st'\<lparr>failedCount := failedCount st' + 1,
                 allErrors := allErrors st' @
                   [\<lparr>pe_row = globalIndex, pe_invoice_id = Some (invoiceId invoice),
                     pe_errors = [case m of None \<Rightarrow> ''Unknown error'' | Some t \<Rightarrow> t]\<rparr>]\<rparr>)"

text \<open>
  One turn of the loop: the batch is announced, every row is started, and
  \<^verbatim>\<open>await Promise.allSettled\<close> lets every pending creation settle, in the order the
  world chooses, before the loop goes on.
\<close>

definition numbered :: "nat \<Rightarrow> InvoiceData list \<Rightarrow> (nat \<times> InvoiceData) list" where
  "numbered i batch = zip [i + 1 ..< i + 1 + length batch] batch"

definition processBatch :: "import_env \<Rightarrow> nat \<Rightarrow> InvoiceData list \<Rightarrow> import_state \<Rightarrow> import_state" where
  "processBatch env i batch st =
     (let st1 = st\<lparr>trace := trace st @ [BatchStart (i div batchSize + 1) i (length batch)]\<rparr>;
          st2 = foldl (\<lambda>s (globalIndex, invoice). startRow globalIndex invoice s) st1 (numbered i batch);
          pending = filter (\<lambda>(globalIndex, invoice). isValid invoice) (numbered i batch)
      in foldl (\<lambda>s (globalIndex, invoice). settleRow env globalIndex invoice s) st2
           (settleOrder env pending))"

text \<open>\<^verbatim>\<open>for (let i = 0; i < invoiceData.length; i += batchSize)\<close>, with \<^verbatim>\<open>slice(i, i + batchSize)\<close>.\<close>

function importLoop :: "import_env \<Rightarrow> InvoiceData list \<Rightarrow> nat \<Rightarrow> import_state \<Rightarrow> import_state" where
  "importLoop env invoiceData i st =
     (if i < length invoiceData
      then importLoop env invoiceData (i + batchSize)
             (processBatch env i (take batchSize (drop i invoiceData)) st)
      else st)"
  by pat_completeness auto
termination
  by (relation "measure (\<lambda>(env, invoiceData, i, st). length invoiceData - i)") (auto simp: batchSize_def)

declare importLoop.simps [simp del]

definition finalStatus :: "import_state \<Rightarrow> job_status" where
  "finalStatus st =
     (if failedCount st = 0 then COMPLETED else (if successfulCount st = 0 then FAILED else COMPLETED))"

text \<open>\<^verbatim>\<open>`Row ${e.row}: ${e.errors[0]}`\<close>; a missing first error prints as \<^verbatim>\<open>undefined\<close>.\<close>

definition errorLine :: "ProcessingError \<Rightarrow> string" where
  "errorLine e =
     ''Row '' @ showNat (pe_row e) @ '': '' @ (case pe_errors e of [] \<Rightarrow> ''undefined'' | m # ms \<Rightarrow> m)"

definition errorSummary :: "import_state \<Rightarrow> string option" where
  "errorSummary st =
     (if length (allErrors st) > 0
      then Some (showNat (length (allErrors st)) @ '' validation errors. Sample: '' @
                 join ''; '' (map errorLine (take 3 (allErrors st))))
      else None)"

definition updateData :: "InvoiceData list \<Rightarrow> import_state \<Rightarrow> job_write" where
  "updateData invoiceData st =
     \<lparr>jw_status = finalStatus st,
      jw_totalInvoices = Some (length invoiceData),
      jw_successfulInvoices = Some (successfulCount st),
      jw_failedInvoices = Some (failedCount st),
      jw_errorMessage = errorSummary st\<rparr>"

definition initialJob :: job_write where
  "initialJob =
     \<lparr>jw_status = PROCESSING, jw_totalInvoices = Some 0, jw_successfulInvoices = Some 0,
      jw_failedInvoices = Some 0, jw_errorMessage = None\<rparr>"

definition failedJob :: "string \<Rightarrow> job_write" where
  "failedJob message =
     \<lparr>jw_status = FAILED, jw_totalInvoices = None, jw_successfulInvoices = None,
      jw_failedInvoices = None, jw_errorMessage = Some message\<rparr>"

definition emptyState :: "event list \<Rightarrow> import_state" where
  "emptyState t = \<lparr>successfulCount = 0, failedCount = 0, allErrors = [], trace = t\<rparr>"

text \<open>
  \<open>processInvoiceFile\<close> returns the trace of the run and, when the function ends by
  rethrowing, the message of the exception. The answers to the two job updates are not
  part of the world: both calls sit in a \<^verbatim>\<open>try\<close> whose handler only logs. The writes to
  the progress display are left out.
\<close>

definition processInvoiceFile :: "import_env \<Rightarrow> string \<Rightarrow> string \<Rightarrow> event list \<times> string option" where
  "processInvoiceFile env fileKey fileName =
     (let fileType = (if endsWith (toLowerCase fileName) ''.csv'' then CSV else XLSX);
          t0 = [JobCreate fileName fileType fileKey initialJob]
      in case jobCreateAnswer env of
           JobCreateThrew m \<Rightarrow> (t0, Some m)
         | JobCreateResult errs data \<Rightarrow>
             (case (errs, data) of
                (None, Some jobId) \<Rightarrow>
                  (case downloadAnswer env of
                     Inl m \<Rightarrow>
                       (if jobId \<noteq> [] then (t0 @ [JobUpdate jobId (failedJob m)], Some m)
                        else (t0, Some m))
                   | Inr invoiceData \<Rightarrow>
                       (if jobId = [] then (t0, Some ''Job ID is missing - cannot process invoices'')
                        else
                          (let st = importLoop env invoiceData 0 (emptyState t0)
                           in (trace st @ [JobUpdate jobId (updateData invoiceData st)], None))))
              | _ \<Rightarrow>
                  (t0, Some (''Failed to create upload job: '' @
                     orUnknown (case errs of Some (m # ms) \<Rightarrow> m | _ \<Rightarrow> [])))))"

text \<open>Worlds to run the importer in.\<close>

definition world :: "(nat \<Rightarrow> create_result) \<Rightarrow> InvoiceData list \<Rightarrow> import_env" where
  "world answers rows =
     \<lparr>jobCreateAnswer = JobCreateResult None (Some ''job-1''), downloadAnswer = Inr rows,
      createAnswer = answers, settleOrder = rev\<rparr>"

definition sixty :: "InvoiceData list" where
  "sixty = replicate 60 sample_invoice"

definition ten_fail :: "nat \<Rightarrow> create_result" where
  "ten_fail g = (if 50 < g then CreateErrors [''rejected''] else Created)"

subsection \<open>Notions used to state the properties of a run\<close>

text \<open>A world is fair when settling a batch permutes its pending creations.\<close>

definition fair :: "import_env \<Rightarrow> bool" where
  "fair env = (\<forall>ps. mset (settleOrder env ps) = mset ps)"

text \<open>A row succeeds when it is valid and the store answers its creation with data.\<close>

definition succeeded :: "import_env \<Rightarrow> nat \<times> InvoiceData \<Rightarrow> bool" where
  "succeeded env p = (isValid (snd p) \<and> createAnswer env (fst p) = Created)"

text \<open>The events of one turn of the loop, and of the loop from index \<open>i\<close> on.\<close>

definition batchEvents :: "import_env \<Rightarrow> nat \<Rightarrow> InvoiceData list \<Rightarrow> event list" where
  "batchEvents env i batch =
     [BatchStart (i div batchSize + 1) i (length batch)] @
     map (\<lambda>p. CreateIssued (fst p)) (filter (\<lambda>p. isValid (snd p)) (numbered i batch)) @
     map (\<lambda>p. CreateSettled (fst p))
       (settleOrder env (filter (\<lambda>p. isValid (snd p)) (numbered i batch)))"

function loopEvents :: "import_env \<Rightarrow> InvoiceData list \<Rightarrow> nat \<Rightarrow> event list" where
  "loopEvents env invoiceData i =
     (if i < length invoiceData
      then batchEvents env i (take batchSize (drop i invoiceData)) @
           loopEvents env invoiceData (i + batchSize)
      else [])"
  by pat_completeness auto
termination
  by (relation "measure (\<lambda>(env, invoiceData, i). length invoiceData - i)") (auto simp: batchSize_def)

declare loopEvents.simps [simp del]






text \<open>The writes to the job record in a trace, and those among them that set a count.\<close>

definition jobWrites :: "event list \<Rightarrow> job_write list" where
  "jobWrites t =
     List.map_filter (\<lambda>e. case e of JobCreate n ft k w \<Rightarrow> Some w | JobUpdate j w \<Rightarrow> Some w | _ \<Rightarrow> None) t"

definition writesCounts :: "job_write \<Rightarrow> bool" where
  "writesCounts w =
     (jw_totalInvoices w \<noteq> None \<or> jw_successfulInvoices w \<noteq> None \<or> jw_failedInvoices w \<noteq> None)"

text \<open>The first event of every run, the state after the loop, and the runs that get that far.\<close>

definition creation :: "string \<Rightarrow> string \<Rightarrow> event" where
  "creation fileKey fileName =
     JobCreate fileName (if endsWith (toLowerCase fileName) ''.csv'' then CSV else XLSX) fileKey initialJob"

definition finalState :: "import_env \<Rightarrow> string \<Rightarrow> string \<Rightarrow> InvoiceData list \<Rightarrow> import_state" where
  "finalState env fileKey fileName invoiceData =
     importLoop env invoiceData 0 (emptyState [creation fileKey fileName])"

definition completes :: "import_env \<Rightarrow> bool" where
  "completes env =
     (case jobCreateAnswer env of
        JobCreateResult None (Some jobId) \<Rightarrow>
          jobId \<noteq> [] \<and> (case downloadAnswer env of Inr invoiceData \<Rightarrow> True | Inl m \<Rightarrow> False)
      | _ \<Rightarrow> False)"

subsection \<open>Stored invoices, and the requests of the two deletion handlers\<close>

text \<open>
  A record of the \<^verbatim>\<open>Invoice\<close> model of the schema. The four PDF fields are nullable. The
  fields that the store itself maintains (creation and update times, owner) are left
  out.
\<close>

record StoredInvoice =
  si_id :: string
  si_invoiceId :: string
  si_sellerId :: string
  si_debtorId :: string
  si_currency :: string
  si_amount :: js_number
  si_product :: string
  si_issueDate :: string
  si_dueDate :: string
  si_uploadDate :: string
  si_uploadJobId :: string
  si_isValid :: bool
  si_validationErrors :: "string list"
  pdfS3Key :: "string option"
  pdfFileName :: "string option"
  pdfUploadedAt :: "string option"
  pdfS3FullPath :: "string option"

text \<open>
  The argument of \<^verbatim>\<open>Invoice.update\<close>: the id of the record, and for every other field
  either nothing (the request does not name the field) or the value to store.
\<close>

record invoice_update =
  u_id :: string
  u_invoiceId :: "string option"
  u_sellerId :: "string option"
  u_debtorId :: "string option"
  u_currency :: "string option"
  u_amount :: "js_number option"
  u_product :: "string option"
  u_issueDate :: "string option"
  u_dueDate :: "string option"
  u_uploadDate :: "string option"
  u_uploadJobId :: "string option"
  u_isValid :: "bool option"
  u_validationErrors :: "string list option"
  u_pdfS3Key :: "string option option"
  u_pdfFileName :: "string option option"
  u_pdfUploadedAt :: "string option option"
  u_pdfS3FullPath :: "string option option"

definition noUpdate :: "string \<Rightarrow> invoice_update" where
  "noUpdate i =
     \<lparr>u_id = i, u_invoiceId = None, u_sellerId = None, u_debtorId = None, u_currency = None,
      u_amount = None, u_product = None, u_issueDate = None, u_dueDate = None,
      u_uploadDate = None, u_uploadJobId = None, u_isValid = None, u_validationErrors = None,
      u_pdfS3Key = None, u_pdfFileName = None, u_pdfUploadedAt = None, u_pdfS3FullPath = None\<rparr>"

text \<open>
  What the document store does with an update, as its interface has it: a field that the
  request names takes the value given, every other field keeps its value.
\<close>

definition applyUpdate :: "invoice_update \<Rightarrow> StoredInvoice \<Rightarrow> StoredInvoice" where
  "applyUpdate u r =
     \<lparr>si_id = si_id r,
      si_invoiceId = (case u_invoiceId u of None \<Rightarrow> si_invoiceId r | Some v \<Rightarrow> v),
      si_sellerId = (case u_sellerId u of None \<Rightarrow> si_sellerId r | Some v \<Rightarrow> v),
      si_debtorId = (case u_debtorId u of None \<Rightarrow> si_debtorId r | Some v \<Rightarrow> v),
      si_currency = (case u_currency u of None \<Rightarrow> si_currency r | Some v \<Rightarrow> v),
      si_amount = (case u_amount u of None \<Rightarrow> si_amount r | Some v \<Rightarrow> v),
      si_product = (case u_product u of None \<Rightarrow> si_product r | Some v \<Rightarrow> v),
      si_issueDate = (case u_issueDate u of None \<Rightarrow> si_issueDate r | Some v \<Rightarrow> v),
      si_dueDate = (case u_dueDate u of None \<Rightarrow> si_dueDate r | Some v \<Rightarrow> v),
      si_uploadDate = (case u_uploadDate u of None \<Rightarrow> si_uploadDate r | Some v \<Rightarrow> v),
      si_uploadJobId = (case u_uploadJobId u of None \<Rightarrow> si_uploadJobId r | Some v \<Rightarrow> v),
      si_isValid = (case u_isValid u of None \<Rightarrow> si_isValid r | Some v \<Rightarrow> v),
      si_validationErrors = (case u_validationErrors u of None \<Rightarrow> si_validationErrors r | Some v \<Rightarrow> v),
      pdfS3Key = (case u_pdfS3Key u of None \<Rightarrow> pdfS3Key r | Some v \<Rightarrow> v),
      pdfFileName = (case u_pdfFileName u of None \<Rightarrow> pdfFileName r | Some v \<Rightarrow> v),
      pdfUploadedAt = (case u_pdfUploadedAt u of None \<Rightarrow> pdfUploadedAt r | Some v \<Rightarrow> v),
      pdfS3FullPath = (case u_pdfS3FullPath u of None \<Rightarrow> pdfS3FullPath r | Some v \<Rightarrow> v)\<rparr>"

text \<open>The requests the two handlers send: to the object store, and to the document store.\<close>

datatype store_event =
    StorageRemove string
  | InvoiceDelete string
  | JobDelete string
  | InvoiceUpdate invoice_update

subsection \<open>Detaching a PDF\<close>

text \<open>
  The answer to the update: data, errors, or an exception with its message. The handler
  returns the requests it sent and the text it shows in an alert, if any.
\<close>

datatype update_result = Updated | UpdateErrors "string list" | UpdateThrew string

record pdf_env =
  pdfConfirm :: bool
  updateAnswer :: update_result

definition handlePdfDelete :: "pdf_env \<Rightarrow> StoredInvoice \<Rightarrow> store_event list \<times> string option" where
  "handlePdfDelete env invoice =
     (if \<not> truthy (pdfS3Key invoice) \<or> si_id invoice = [] then ([], None)
      else if \<not> pdfConfirm env then ([], None)
      else
        (let request = InvoiceUpdate ((noUpdate (si_id invoice))
               \<lparr>u_pdfS3Key := Some None, u_pdfS3FullPath := Some None,
                u_pdfFileName := Some None, u_pdfUploadedAt := Some None\<rparr>)
         in case updateAnswer env of
              Updated \<Rightarrow> ([request], None)
            | UpdateErrors es \<Rightarrow>
                ([request], Some ''Failed to delete PDF: Failed to remove PDF information from database'')
            | UpdateThrew m \<Rightarrow> ([request], Some (''Failed to delete PDF: '' @ m))))"

subsection \<open>Deleting a file with all that hangs on it\<close>

datatype delete_result = Deleted | DeleteErrors "string list" | DeleteThrew

text \<open>
  The world around a deletion: the answer to the confirmation dialogue, the jobs listed
  for the path (errors, data as job ids), the invoices listed for a job, whether removing
  an object throws (with its message), the answer to the deletion of an invoice, and the
  errors of the deletion of a job. A call to the document store that throws instead of
  answering is \<open>Inl\<close> with the message of the exception.
\<close>

record delete_env =
  deleteConfirm :: bool
  jobsAnswer :: "string + (string list option \<times> string list option)"
  invoicesAnswer :: "string \<Rightarrow> string + (string list option \<times> StoredInvoice list option)"
  removeAnswer :: "string \<Rightarrow> string option"
  invoiceDeleteAnswer :: "string \<Rightarrow> delete_result"
  jobDeleteAnswer :: "string \<Rightarrow> string + string list option"

text \<open>\<^verbatim>\<open>result.data || []\<close>.\<close>

definition dataOrEmpty :: "'a list option \<Rightarrow> 'a list" where
  "dataOrEmpty d = (case d of None \<Rightarrow> [] | Some xs \<Rightarrow> xs)"

text \<open>
  The removals of the attached PDFs, one after the other; a removal that throws is logged
  and the loop goes on.
\<close>

definition pdfRemovals :: "StoredInvoice list \<Rightarrow> store_event list" where
  "pdfRemovals associatedInvoices =
     List.map_filter (\<lambda>invoice. case pdfS3Key invoice of
                         None \<Rightarrow> None
                       | Some k \<Rightarrow> if k \<noteq> [] then Some (StorageRemove k) else None)
       associatedInvoices"

definition invoiceFailed :: "delete_env \<Rightarrow> StoredInvoice list \<Rightarrow> nat" where
  "invoiceFailed env associatedInvoices =
     length (filter (\<lambda>invoice. invoiceDeleteAnswer env (si_id invoice) \<noteq> Deleted) associatedInvoices)"

text \<open>The body of the loop over the jobs: the requests sent, and the message of the exception thrown, if any.\<close>

definition deleteJob :: "delete_env \<Rightarrow> string \<Rightarrow> store_event list \<times> string option" where
  "deleteJob env job =
     (case invoicesAnswer env job of
        Inl m \<Rightarrow> ([], Some m)
      | Inr (Some errs, d) \<Rightarrow> ([], Some ''Failed to find associated invoices'')
      | Inr (None, d) \<Rightarrow>
          (let associatedInvoices = dataOrEmpty d;
               t = pdfRemovals associatedInvoices @
                   map (\<lambda>invoice. InvoiceDelete (si_id invoice)) associatedInvoices
           in if invoiceFailed env associatedInvoices > 0
              then (t, Some (''Failed to delete '' @ showNat (invoiceFailed env associatedInvoices) @
                             '' out of '' @ showNat (length associatedInvoices) @ '' invoices''))
              else (case jobDeleteAnswer env job of
                      Inl m \<Rightarrow> (t @ [JobDelete job], Some m)
                    | Inr (Some errs) \<Rightarrow>
                        (t @ [JobDelete job],
                         Some (''Failed to delete processing job: '' @
                               orUnknown (case errs of [] \<Rightarrow> [] | m # ms \<Rightarrow> m)))
                    | Inr None \<Rightarrow> (t @ [JobDelete job], None))))"

fun deleteJobs :: "delete_env \<Rightarrow> string list \<Rightarrow> store_event list \<times> string option" where
  "deleteJobs env [] = ([], None)"
| "deleteJobs env (job # jobs) =
     (case deleteJob env job of
        (t, Some m) \<Rightarrow> (t, Some m)
      | (t, None) \<Rightarrow> (case deleteJobs env jobs of (t', r) \<Rightarrow> (t @ t', r)))"

text \<open>
  \<open>handleDeleteFile\<close> returns the requests it sent and the text it gives to
  \<^verbatim>\<open>setError\<close>, if any. The reloads of the lists after a deletion are left out.
\<close>

definition handleDeleteFile :: "delete_env \<Rightarrow> string \<Rightarrow> store_event list \<times> string option" where
  "handleDeleteFile env filePath =
     (if \<not> deleteConfirm env then ([], None)
      else case jobsAnswer env of
             Inl m \<Rightarrow> ([], Some (''Failed to delete file and associated data: '' @ m))
           | Inr (Some errs, d) \<Rightarrow>
               ([], Some (''Failed to delete file and associated data: '' @
                          ''Failed to find associated processing job''))
           | Inr (None, d) \<Rightarrow>
               (case deleteJobs env (dataOrEmpty d) of
                  (t, Some m) \<Rightarrow> (t, Some (''Failed to delete file and associated data: '' @ m))
                | (t, None) \<Rightarrow>
                    (case removeAnswer env filePath of
                       Some m \<Rightarrow>
                         (t @ [StorageRemove filePath],
                          Some (''Failed to delete file and associated data: '' @ m))
                     | None \<Rightarrow> (t @ [StorageRemove filePath], None))))"

text \<open>
  To state what the handler sends: that the store answers the listing of the invoices of
  a job with the given invoices (no data at all counts as none); the requests for the
  invoices of one job, the PDF removals and then the record deletions; and that a job
  goes through, which is that its invoices are listed, each of their deletions succeeds
  and so does the deletion of the job.
\<close>

definition invoicesListed :: "delete_env \<Rightarrow> string \<Rightarrow> StoredInvoice list \<Rightarrow> bool" where
  "invoicesListed env job invoices =
     (case invoicesAnswer env job of
        Inr (None, d) \<Rightarrow> dataOrEmpty d = invoices
      | _ \<Rightarrow> False)"

definition invoiceRequests :: "StoredInvoice list \<Rightarrow> store_event list" where
  "invoiceRequests invoices =
     pdfRemovals invoices @ map (\<lambda>invoice. InvoiceDelete (si_id invoice)) invoices"

definition goesThrough :: "delete_env \<Rightarrow> string \<Rightarrow> StoredInvoice list \<Rightarrow> bool" where
  "goesThrough env job invoices =
     (invoicesListed env job invoices \<and> invoiceFailed env invoices = 0 \<and> jobDeleteAnswer env job = Inr None)"

text \<open>A stored invoice and a world to run the deletions in: five invoices, two of them with a PDF.\<close>

definition stored :: "string \<Rightarrow> string option \<Rightarrow> StoredInvoice" where
  "stored i pdf =
     \<lparr>si_id = i, si_invoiceId = ''123e4567-e89b-12d3-a456-426614174000'',
      si_sellerId = ''123e4567-e89b-12d3-a456-426614174000'',
      si_debtorId = ''123e4567-e89b-12d3-a456-426614174000'', si_currency = ''USD'',
      si_amount = Fin 10, si_product = ''bolts'', si_issueDate = ''2024-01-31'',
      si_dueDate = ''2024-02-29'', si_uploadDate = ''2024-03-01'', si_uploadJobId = ''job-1'',
      si_isValid = True, si_validationErrors = [], pdfS3Key = pdf,
      pdfFileName = map_option (\<lambda>k. ''scan.pdf'') pdf,
      pdfUploadedAt = map_option (\<lambda>k. ''2024-03-02T10:00:00.000Z'') pdf,
      pdfS3FullPath = map_option (\<lambda>k. ''bucket/'' @ k) pdf\<rparr>"

definition five_invoices :: "StoredInvoice list" where
  "five_invoices =
     [stored ''i1'' None, stored ''i2'' (Some ''pdf/a.pdf''), stored ''i3'' None,
      stored ''i4'' (Some ''pdf/b.pdf''), stored ''i5'' None]"

definition delete_world :: "(string \<Rightarrow> delete_result) \<Rightarrow> delete_env" where
  "delete_world answers =
     \<lparr>deleteConfirm = True, jobsAnswer = Inr (None, Some [''job-1'']),
      invoicesAnswer = (\<lambda>j. Inr (None, Some five_invoices)),
      removeAnswer = (\<lambda>p. if p = ''pdf/a.pdf'' then Some ''AccessDenied'' else None),
      invoiceDeleteAnswer = answers, jobDeleteAnswer = (\<lambda>j. Inr None)\<rparr>"

text \<open>
  A second world, where two jobs are listed for the path: the first has two invoices, one
  with a PDF, the second has one invoice with a PDF. No removal throws.
\<close>

definition invoicesOfJob :: "string \<Rightarrow> StoredInvoice list" where
  "invoicesOfJob j =
     (if j = ''job-1'' then [stored ''i1'' (Some ''pdf/a.pdf''), stored ''i2'' None]
      else [(stored ''i3'' (Some ''pdf/b.pdf''))\<lparr>si_uploadJobId := j\<rparr>])"

definition two_jobs_world :: "(string \<Rightarrow> delete_result) \<Rightarrow> delete_env" where
  "two_jobs_world answers =
     \<lparr>deleteConfirm = True, jobsAnswer = Inr (None, Some [''job-1'', ''job-2'']),
      invoicesAnswer = (\<lambda>j. Inr (None, Some (invoicesOfJob j))),
      removeAnswer = (\<lambda>p. None),
      invoiceDeleteAnswer = answers, jobDeleteAnswer = (\<lambda>j. Inr None)\<rparr>"

section \<open>Properties\<close>

subsection \<open>Normalised dates compare as the calendar does\<close>


lemma digitChar_less: "a < 10 \<Longrightarrow> b < 10 \<Longrightarrow> (digitChar a < digitChar b) = (a < b)"
  by (simp add: digitChar_def less_char_def)

lemma digitChar_eq: "a < 10 \<Longrightarrow> b < 10 \<Longrightarrow> (digitChar a = digitChar b) = (a = b)"
proof -
  assume a: "a < 10" "b < 10"
  have "(digitChar a = digitChar b) = (of_char (digitChar a) = (of_char (digitChar b) :: nat))"
    by simp
  also have "\<dots> = (a = b)" using a by (simp add: digitChar_def)
  finally show ?thesis .
qed

lemma append_less_same_length:
  "length xs = length ys \<Longrightarrow> (xs @ u < ys @ v) = (xs < ys \<or> xs = ys \<and> u < (v :: 'a :: linorder list))"
  by (induction xs ys rule: list_induct2) auto

lemma digits2_less:
  "a1 < 10 \<Longrightarrow> a0 < 10 \<Longrightarrow> b1 < 10 \<Longrightarrow> b0 < 10 \<Longrightarrow>
   ([digitChar a1, digitChar a0] < [digitChar b1, digitChar b0]) = (a1 < b1 \<or> a1 = b1 \<and> a0 < b0)"
  by (simp add: digitChar_less digitChar_eq)

lemma digits2_eq:
  "a1 < 10 \<Longrightarrow> a0 < 10 \<Longrightarrow> b1 < 10 \<Longrightarrow> b0 < 10 \<Longrightarrow>
   ([digitChar a1, digitChar a0] = [digitChar b1, digitChar b0]) = (a1 = b1 \<and> a0 = b0)"
  by (simp add: digitChar_eq)

lemma one_digit_less:
  "b < 10 \<Longrightarrow> d < 10 \<Longrightarrow> (10 * a + b < 10 * c + (d::nat)) = (a < c \<or> a = c \<and> b < d)"
  by arith

lemma one_digit_eq:
  assumes "b < 10" "d < 10"
  shows "(10 * a + b = 10 * c + (d::nat)) = (a = c \<and> b = d)"
proof
  assume e: "10 * a + b = 10 * c + d"
  then have "(10 * a + b) div 10 = (10 * c + d) div 10" by simp
  then have "a = c" using assms by simp
  with e show "a = c \<and> b = d" by simp
next
  assume "a = c \<and> b = d"
  then show "10 * a + b = 10 * c + d" by simp
qed

lemma pad2_less: "n < 100 \<Longrightarrow> m < 100 \<Longrightarrow> (pad2 n < pad2 m) = (n < m)"
proof -
  assume a: "n < 100" "m < 100"
  have b: "n div 10 mod 10 = n div 10" "m div 10 mod 10 = m div 10" using a by simp_all
  have c: "n div 10 < 10" "n mod 10 < 10" "m div 10 < 10" "m mod 10 < 10" using a by simp_all
  have "(pad2 n < pad2 m) = (n div 10 < m div 10 \<or> n div 10 = m div 10 \<and> n mod 10 < m mod 10)"
    unfolding pad2_def b by (rule digits2_less[OF c])
  also have "\<dots> = (10 * (n div 10) + n mod 10 < 10 * (m div 10) + m mod 10)"
    by (rule one_digit_less[OF c(2) c(4), symmetric])
  also have "\<dots> = (n < m)" by (simp only: mult_div_mod_eq)
  finally show ?thesis .
qed

lemma pad2_eq: "n < 100 \<Longrightarrow> m < 100 \<Longrightarrow> (pad2 n = pad2 m) = (n = m)"
proof -
  assume a: "n < 100" "m < 100"
  have b: "n div 10 mod 10 = n div 10" "m div 10 mod 10 = m div 10" using a by simp_all
  have c: "n div 10 < 10" "n mod 10 < 10" "m div 10 < 10" "m mod 10 < 10" using a by simp_all
  have "(pad2 n = pad2 m) = (n div 10 = m div 10 \<and> n mod 10 = m mod 10)"
    unfolding pad2_def b by (rule digits2_eq[OF c])
  also have "\<dots> = (10 * (n div 10) + n mod 10 = 10 * (m div 10) + m mod 10)"
    by (rule one_digit_eq[OF c(2) c(4), symmetric])
  also have "\<dots> = (n = m)" by (simp only: mult_div_mod_eq)
  finally show ?thesis .
qed

lemma length_pad2: "length (pad2 n) = 2"
  by (simp add: pad2_def)

lemma length_pad4: "length (pad4 n) = 4"
  by (simp add: pad4_def)

lemma pad4_split: "pad4 n = pad2 (n div 100) @ pad2 (n mod 100)"
proof -
  have d1: "n div 1000 mod 10 = n div 100 div 10 mod 10"
    by (simp add: div_mult2_eq[symmetric])
  have d2: "n mod 10 = n mod 100 mod 10"
    by (simp add: mod_mod_cancel)
  have "n mod 100 = 10 * (n div 10 mod 10) + n mod 10"
    using mod_mult2_eq[of n 10 10] by simp
  then have d3: "n div 10 mod 10 = n mod 100 div 10 mod 10" by simp
  show ?thesis unfolding pad4_def pad2_def using d1 d2 d3 by simp
qed

lemma two_digit_less:
  "b < 100 \<Longrightarrow> d < 100 \<Longrightarrow> (100 * a + b < 100 * c + (d::nat)) = (a < c \<or> a = c \<and> b < d)"
  by arith

lemma two_digit_eq:
  assumes "b < 100" "d < 100"
  shows "(100 * a + b = 100 * c + (d::nat)) = (a = c \<and> b = d)"
proof
  assume e: "100 * a + b = 100 * c + d"
  then have "(100 * a + b) div 100 = (100 * c + d) div 100" by simp
  then have "a = c" using assms by simp
  with e show "a = c \<and> b = d" by simp
next
  assume "a = c \<and> b = d"
  then show "100 * a + b = 100 * c + d" by simp
qed

lemma pad4_less: "n < 10000 \<Longrightarrow> m < 10000 \<Longrightarrow> (pad4 n < pad4 m) = (n < m)"
proof -
  assume a: "n < 10000" "m < 10000"
  have b: "n div 100 < 100" "m div 100 < 100" "n mod 100 < 100" "m mod 100 < 100" using a by simp_all
  have "(pad4 n < pad4 m) = (pad2 (n div 100) < pad2 (m div 100) \<or> pad2 (n div 100) = pad2 (m div 100) \<and> pad2 (n mod 100) < pad2 (m mod 100))"
    unfolding pad4_split by (rule append_less_same_length) (simp add: length_pad2)
  also have "\<dots> = (n div 100 < m div 100 \<or> n div 100 = m div 100 \<and> n mod 100 < m mod 100)"
    by (simp only: pad2_less[OF b(1) b(2)] pad2_less[OF b(3) b(4)] pad2_eq[OF b(1) b(2)])
  also have "\<dots> = (100 * (n div 100) + n mod 100 < 100 * (m div 100) + m mod 100)"
    by (rule two_digit_less[OF b(3) b(4), symmetric])
  also have "\<dots> = (n < m)" by (simp only: mult_div_mod_eq)
  finally show ?thesis .
qed

lemma pad4_eq: "n < 10000 \<Longrightarrow> m < 10000 \<Longrightarrow> (pad4 n = pad4 m) = (n = m)"
proof -
  assume a: "n < 10000" "m < 10000"
  have b: "n div 100 < 100" "m div 100 < 100" "n mod 100 < 100" "m mod 100 < 100" using a by simp_all
  have "(pad4 n = pad4 m) = (pad2 (n div 100) = pad2 (m div 100) \<and> pad2 (n mod 100) = pad2 (m mod 100))"
    unfolding pad4_split by (simp add: length_pad2)
  also have "\<dots> = (n div 100 = m div 100 \<and> n mod 100 = m mod 100)"
    by (simp only: pad2_eq[OF b(1) b(2)] pad2_eq[OF b(3) b(4)])
  also have "\<dots> = (100 * (n div 100) + n mod 100 = 100 * (m div 100) + m mod 100)"
    by (rule two_digit_eq[OF b(3) b(4), symmetric])
  also have "\<dots> = (n = m)" by (simp only: mult_div_mod_eq)
  finally show ?thesis .
qed

lemma toISODate_less:
  "wf_date a \<Longrightarrow> wf_date b \<Longrightarrow> (toISODate a < toISODate b) = date_before a b"
  by (cases a; cases b)
     (simp add: toISODate_def wf_date_def date_before_def append_less_same_length pad4_less pad4_eq pad2_less pad2_eq length_pad2 length_pad4)

lemma toISODate_nonempty: "toISODate a \<noteq> []"
  by (cases a) (simp add: toISODate_def pad4_def)

subsection \<open>What the regular expressions and the date constructor accept\<close>

lemma cls_Some: "cls P s = Some r \<Longrightarrow> \<exists>c. s = c # r \<and> P c"
  by (auto simp: cls_def split: list.splits if_splits)

lemma rep_Some: "rep n P s = Some r \<Longrightarrow> \<exists>p. s = p @ r \<and> length p = n \<and> (\<forall>c\<in>set p. P c)"
proof (induction n arbitrary: s)
  case 0
  then show ?case by simp
next
  case (Suc n)
  then obtain r1 where r1: "cls P s = Some r1" "rep n P r1 = Some r"
    by (auto simp: bind_eq_Some_conv)
  from cls_Some[OF r1(1)] obtain c where c: "s = c # r1" "P c" by blast
  from Suc.IH[OF r1(2)] obtain p where p: "r1 = p @ r" "length p = n" "\<forall>c\<in>set p. P c" by blast
  show ?case
    by (rule exI[of _ "c # p"]) (use c p in simp)
qed

lemma digitVal_le: "isDigit c \<Longrightarrow> digitVal c \<le> 9"
  by (auto simp: isDigit_def digitVal_def)

lemma digitsVal_snoc: "digitsVal (s @ [c]) = 10 * digitsVal s + digitVal c"
  by (simp add: digitsVal_def)

lemma digitsVal_bound: "\<forall>c\<in>set s. isDigit c \<Longrightarrow> digitsVal s < 10 ^ length s"
proof (induction s rule: rev_induct)
  case Nil
  then show ?case by (simp add: digitsVal_def)
next
  case (snoc c s)
  then have a: "digitsVal s < 10 ^ length s" and b: "digitVal c \<le> 9"
    by (simp_all add: digitVal_le)
  from a have "digitsVal s + 1 \<le> 10 ^ length s" by simp
  then have "10 * (digitsVal s + 1) \<le> 10 * 10 ^ length s" by (rule mult_le_mono2)
  with b show ?case by (simp add: digitsVal_snoc)
qed

lemma date_regex_year: "date_regex s \<Longrightarrow> digitsVal (take 4 s) < 10000"
proof -
  assume "date_regex s"
  then have "\<exists>r. rep 4 isDigit s = Some r"
    by (auto simp: date_regex_def atEnd_def bind_eq_Some_conv)
  then obtain r where "rep 4 isDigit s = Some r" by blast
  from rep_Some[OF this] obtain p where p: "s = p @ r" "length p = 4" "\<forall>c\<in>set p. isDigit c" by blast
  then have "take 4 s = p" by simp
  moreover have "digitsVal p < 10 ^ length p" using p(3) by (rule digitsVal_bound)
  ultimately show ?thesis using p(2) by simp
qed

lemma date_regex_nonempty: "date_regex s \<Longrightarrow> s \<noteq> []"
  by (auto simp: date_regex_def atEnd_def cls_def eval_nat_numeral)

lemma newDate_wf: "newDate eng s = Some d \<Longrightarrow> wf_date d"
  by (auto simp: newDate_def wf_date_def Let_def date_regex_year split: if_splits date_engine.splits)

lemma newDate_regex: "newDate eng s = Some d \<Longrightarrow> date_regex s"
  by (simp add: newDate_def split: if_splits)

lemma isValidDate_iff: "isValidDate eng s = (\<exists>d. newDate eng s = Some d)"
  by (auto simp: isValidDate_def newDate_regex split: option.splits)

subsection \<open>The validator never raises, and keeps flag and error list in step\<close>

lemma untouched_invoice_id: "untouched st (validate_invoice_id row n st)"
  by (cases st) (simp add: untouched_def validate_invoice_id_def split: option.splits)
lemma untouched_seller_id: "untouched st (validate_seller_id row n st)"
  by (cases st) (simp add: untouched_def validate_seller_id_def split: option.splits)
lemma untouched_debtor_id: "untouched st (validate_debtor_id row n st)"
  by (cases st) (simp add: untouched_def validate_debtor_id_def split: option.splits)
lemma untouched_currency: "untouched st (validate_currency row n st)"
  by (cases st) (simp add: untouched_def validate_currency_def split: option.splits)
lemma untouched_amount: "untouched st (validate_amount row n st)"
  by (cases st) (simp add: untouched_def validate_amount_def Let_def split: option.splits)
lemma untouched_product: "untouched st (validate_product row n st)"
  by (cases st) (simp add: untouched_def validate_product_def split: option.splits)
lemma untouched_date_order: "untouched st (validate_date_order n st)"
  by (cases st) (simp add: untouched_def validate_date_order_def)

lemma formatDateString_total: "isValidDate eng v \<Longrightarrow> \<exists>f. formatDateString eng v = Some f"
  by (auto simp: isValidDate_def formatDateString_def split: option.splits)

lemma issue_date_total: "\<exists>st'. validate_issue_date eng row n st = Some st' \<and> untouched st st'"
  using formatDateString_total
  by (cases st) (fastforce simp: untouched_def validate_issue_date_def split: option.splits)

lemma due_date_total: "\<exists>st'. validate_due_date eng row n st = Some st' \<and> untouched st st'"
  using formatDateString_total
  by (cases st) (fastforce simp: untouched_def validate_due_date_def split: option.splits)

lemma untouched_trans: "untouched a b \<Longrightarrow> untouched b c \<Longrightarrow> untouched a c"
  by (simp add: untouched_def)

lemma finish_flags:
  "isValid (snd st) \<Longrightarrow> validationErrors (snd st) = [] \<Longrightarrow>
   (isValid (finish st) \<longleftrightarrow> validationErrors (finish st) = []) \<and>
   (\<not> isValid (finish st) \<longrightarrow> 1 \<le> length (validationErrors (finish st)))"
  by (cases st) (auto simp: finish_def Suc_le_eq)

lemma validate_never_raises_aux:
  "\<exists>st. Option.bind (validate_issue_date eng row n st0) (validate_due_date eng row n) = Some st \<and> untouched st0 st"
proof -
  obtain s1 where s1: "validate_issue_date eng row n st0 = Some s1" "untouched st0 s1"
    using issue_date_total by blast
  obtain s2 where s2: "validate_due_date eng row n s1 = Some s2" "untouched s1 s2"
    using due_date_total by blast
  show ?thesis using s1 s2 untouched_trans by auto
qed

text \<open>
  C2. For every raw row and row number the validator returns a record (it does not raise),
  and in that record \<open>isValid\<close> is true exactly when \<open>validationErrors\<close> is empty; an
  invalid record holds at least one error message.
\<close>

theorem validator_valid_iff_no_errors:
  "\<exists>iv. validateInvoiceData eng row rowNumber = Some iv \<and>
         (isValid iv \<longleftrightarrow> validationErrors iv = []) \<and>
         (\<not> isValid iv \<longrightarrow> 1 \<le> length (validationErrors iv))"
proof -
  let ?s0 = "([], emptyInvoice) :: vstate"
  let ?s6 = "validate_product row rowNumber
               (validate_amount row rowNumber
                 (validate_currency row rowNumber
                   (validate_debtor_id row rowNumber
                     (validate_seller_id row rowNumber
                       (validate_invoice_id row rowNumber ?s0)))))"
  have u6: "untouched ?s0 ?s6"
    by (meson untouched_trans untouched_invoice_id untouched_seller_id untouched_debtor_id
        untouched_currency untouched_amount untouched_product)
  obtain s8 where s8: "Option.bind (validate_issue_date eng row rowNumber ?s6) (validate_due_date eng row rowNumber) = Some s8"
    "untouched ?s6 s8" using validate_never_raises_aux by blast
  let ?s9 = "validate_date_order rowNumber s8"
  have "untouched ?s0 ?s9" using u6 s8(2) untouched_date_order untouched_trans by blast
  then have "isValid (snd ?s9)" "validationErrors (snd ?s9) = []"
    by (simp_all add: untouched_def emptyInvoice_def)
  then have "(isValid (finish ?s9) \<longleftrightarrow> validationErrors (finish ?s9) = []) \<and>
   (\<not> isValid (finish ?s9) \<longrightarrow> 1 \<le> length (validationErrors (finish ?s9)))"
    by (rule finish_flags)
  moreover have "validateInvoiceData eng row rowNumber = Some (finish ?s9)"
    using s8(1) by (simp add: validateInvoiceData_def)
  ultimately show ?thesis by blast
qed

theorem validator_valid_iff_no_errors_witness:
  "\<exists>iv. validateInvoiceData DayInMonth [(''currency'', ''XXX'')] 2 = Some iv \<and>
         (isValid iv \<longleftrightarrow> validationErrors iv = []) \<and>
         (\<not> isValid iv \<longrightarrow> 1 \<le> length (validationErrors iv))"
  using validator_valid_iff_no_errors [of DayInMonth "[(''currency'', ''XXX'')]" 2] by simp

subsection \<open>The due date of a valid row is after its issue date\<close>

lemma issue_date_clean:
  "validate_issue_date eng row n st = Some st' \<Longrightarrow> fst st' = [] \<Longrightarrow>
   fst st = [] \<and> dueDate (snd st') = dueDate (snd st) \<and>
   (\<exists>a di. map_of row ''issue_date'' = Some a \<and> newDate eng a = Some di \<and> issueDate (snd st') = toISODate di)"
  by (cases st) (auto simp: validate_issue_date_def formatDateString_def split: option.splits if_splits)

lemma due_date_clean:
  "validate_due_date eng row n st = Some st' \<Longrightarrow> fst st' = [] \<Longrightarrow>
   fst st = [] \<and> issueDate (snd st') = issueDate (snd st) \<and>
   (\<exists>b dd. map_of row ''due_date'' = Some b \<and> newDate eng b = Some dd \<and> dueDate (snd st') = toISODate dd)"
  by (cases st) (auto simp: validate_due_date_def formatDateString_def split: option.splits if_splits)

lemma date_order_clean:
  "fst (validate_date_order n st) = [] \<Longrightarrow>
   fst st = [] \<and> snd (validate_date_order n st) = snd st \<and>
   \<not> (issueDate (snd st) \<noteq> [] \<and> dueDate (snd st) \<noteq> [] \<and> dueDate (snd st) \<le> issueDate (snd st))"
  by (cases st) (auto simp: validate_date_order_def split: if_splits)

lemma finish_valid: "isValid (finish st) \<Longrightarrow> fst st = [] \<and> finish st = snd st"
  by (cases st) (auto simp: finish_def split: if_splits)

lemma issue_date_parsed:
  assumes "map_of row ''issue_date'' = Some a" "newDate eng a = Some di"
  shows "validate_issue_date eng row n st = Some (fst st, (snd st)\<lparr>issueDate := toISODate di\<rparr>)"
proof -
  have "isValidDate eng a" "a \<noteq> []"
    using assms(2) isValidDate_iff date_regex_nonempty newDate_regex by blast+
  then show ?thesis
    using assms by (cases st) (simp add: validate_issue_date_def formatDateString_def)
qed

lemma due_date_parsed:
  assumes "map_of row ''due_date'' = Some b" "newDate eng b = Some dd"
  shows "validate_due_date eng row n st = Some (fst st, (snd st)\<lparr>dueDate := toISODate dd\<rparr>)"
proof -
  have "isValidDate eng b" "b \<noteq> []"
    using assms(2) isValidDate_iff date_regex_nonempty newDate_regex by blast+
  then show ?thesis
    using assms by (cases st) (simp add: validate_due_date_def formatDateString_def)
qed

lemma toISODate_le:
  "wf_date a \<Longrightarrow> wf_date b \<Longrightarrow> (toISODate b \<le> toISODate a) = (\<not> date_before a b)"
  using toISODate_less[of a b] by (simp add: not_less[symmetric])

lemma validateInvoiceData_steps:
  "validateInvoiceData eng row n = Some iv \<Longrightarrow>
   \<exists>s7 s8. validate_issue_date eng row n (before_dates row n) = Some s7 \<and>
           validate_due_date eng row n s7 = Some s8 \<and>
           iv = finish (validate_date_order n s8)"
  by (auto simp: validateInvoiceData_def before_dates_def bind_eq_Some_conv)

lemma valid_row_dates:
  assumes "validateInvoiceData eng row n = Some iv" "isValid iv"
  shows "\<exists>a b di dd. map_of row ''issue_date'' = Some a \<and> map_of row ''due_date'' = Some b \<and>
           newDate eng a = Some di \<and> newDate eng b = Some dd \<and>
           issueDate iv = toISODate di \<and> dueDate iv = toISODate dd \<and>
           issueDate iv < dueDate iv \<and> date_before di dd"
proof -
  from validateInvoiceData_steps[OF assms(1)] obtain s7 s8 where
    s7: "validate_issue_date eng row n (before_dates row n) = Some s7" and
    s8: "validate_due_date eng row n s7 = Some s8" and
    iv: "iv = finish (validate_date_order n s8)" by blast
  let ?s9 = "validate_date_order n s8"
  from assms(2) iv have f: "fst ?s9 = []" "iv = snd ?s9" using finish_valid by auto
  from date_order_clean[OF f(1)] have o: "fst s8 = []" "snd ?s9 = snd s8"
    "\<not> (issueDate (snd s8) \<noteq> [] \<and> dueDate (snd s8) \<noteq> [] \<and> dueDate (snd s8) \<le> issueDate (snd s8))"
    by simp_all
  from due_date_clean[OF s8 o(1)] obtain b dd where
    d: "fst s7 = []" "issueDate (snd s8) = issueDate (snd s7)"
       "map_of row ''due_date'' = Some b" "newDate eng b = Some dd" "dueDate (snd s8) = toISODate dd"
    by blast
  from issue_date_clean[OF s7 d(1)] obtain a di where
    i: "map_of row ''issue_date'' = Some a" "newDate eng a = Some di" "issueDate (snd s7) = toISODate di"
    by blast
  have e: "issueDate iv = toISODate di" "dueDate iv = toISODate dd"
    using f(2) o(2) d(2) d(5) i(3) by simp_all
  have "\<not> dueDate iv \<le> issueDate iv"
    using o(3) e f(2) o(2) toISODate_nonempty by metis
  then have l: "issueDate iv < dueDate iv" by simp
  then have "date_before di dd"
    using toISODate_less[OF newDate_wf[OF i(2)] newDate_wf[OF d(4)]] e by simp
  with l e i d show ?thesis by blast
qed

lemma late_issue_dates:
  assumes "map_of row ''issue_date'' = Some a" "newDate eng a = Some di"
      "map_of row ''due_date'' = Some b" "newDate eng b = Some dd" "\<not> date_before di dd"
  shows "\<exists>iv. validateInvoiceData eng row n = Some iv \<and> \<not> isValid iv \<and>
           rowMsg n ''Due date must be after issue date'' \<in> set (validationErrors iv) \<and>
           issueDate iv = toISODate di \<and> dueDate iv = toISODate dd"
proof -
  let ?s6 = "before_dates row n"
  let ?s8 = "(fst ?s6, (snd ?s6)\<lparr>issueDate := toISODate di, dueDate := toISODate dd\<rparr>)"
  have s8: "Option.bind (validate_issue_date eng row n ?s6) (validate_due_date eng row n) = Some ?s8"
    by (simp add: issue_date_parsed[OF assms(1,2)] due_date_parsed[OF assms(3,4)])
  have le: "toISODate dd \<le> toISODate di"
    using toISODate_le[OF newDate_wf[OF assms(2)] newDate_wf[OF assms(4)]] assms(5) by simp
  have s9: "validate_date_order n ?s8 =
      (fst ?s6 @ [rowMsg n ''Due date must be after issue date''], snd ?s8)"
    using le by (simp add: validate_date_order_def toISODate_nonempty)
  have "validateInvoiceData eng row n = Some (finish (validate_date_order n ?s8))"
    using s8 by (simp add: validateInvoiceData_def before_dates_def)
  then show ?thesis
    unfolding s9 by (simp add: finish_def)
qed


subsection \<open>Running the validator on the sample row\<close>

lemma eval_parseFloat_cent: "parseFloat ''0.01'' = Fin (1 / 100)"
  by (simp add: parseFloat_def readSign_def trimStart_def isWhiteSpace_def readFraction_def isDigit_def digitsVal_def digitVal_def toBinary64_def readExponent_def)

lemma eval_uuid: "isValidUUID ''123e4567-e89b-12d3-a456-426614174000''"
  by code_simp

lemma eval_issue: "isValidDate eng ''2024-01-31''" "formatDateString eng ''2024-01-31'' = Some ''2024-01-31''"
  by (cases eng; code_simp)+

lemma eval_due: "isValidDate eng ''2024-02-29''" "formatDateString eng ''2024-02-29'' = Some ''2024-02-29''"
  by (cases eng; code_simp)+

lemma eval_currency: "toUpperCase ''usd'' = ''USD''" "''USD'' \<in> set validCurrencies"
  by code_simp+

lemma eval_product: "trim '' bolts '' = ''bolts''"
  by code_simp

lemma eval_order: "\<not> ''2024-02-29'' \<le> ''2024-01-31''"
  by code_simp

lemma sample_row_validated: "validateInvoiceData eng sample_row 2 = Some sample_invoice"
  by (simp add: validateInvoiceData_def sample_row_def validate_invoice_id_def validate_seller_id_def
      validate_debtor_id_def validate_currency_def validate_amount_def validate_product_def
      validate_issue_date_def validate_due_date_def validate_date_order_def finish_def
      eval_uuid eval_parseFloat_cent eval_issue eval_due eval_currency eval_product eval_order
      isNaN_def le_zero_def emptyInvoice_def sample_invoice_def)


lemma eval_late: "newDate eng ''2024-03-01'' = Some (2024, 3, 1)" "isValidDate eng ''2024-03-01''"
  by (cases eng; code_simp)+

text \<open>
  C6. A row that the validator returns as valid has both dates parsed and stored in the
  normalised form, and the stored due date is strictly greater than the stored issue
  date as a string, which is the same as being later in the calendar. A row whose two
  dates parse but whose due date is not after its issue date gets the error of the rule
  and keeps both normalised dates.
\<close>

theorem valid_rows_due_after_issue:
  "(validateInvoiceData eng row n = Some iv \<longrightarrow> isValid iv \<longrightarrow>
      (\<exists>a b di dd. map_of row ''issue_date'' = Some a \<and> map_of row ''due_date'' = Some b \<and>
         newDate eng a = Some di \<and> newDate eng b = Some dd \<and>
         issueDate iv = toISODate di \<and> dueDate iv = toISODate dd \<and>
         issueDate iv < dueDate iv \<and> date_before di dd)) \<and>
   (map_of row' ''issue_date'' = Some a' \<longrightarrow> isValidDate eng' a' \<longrightarrow> newDate eng' a' = Some di' \<longrightarrow>
    map_of row' ''due_date'' = Some b' \<longrightarrow> isValidDate eng' b' \<longrightarrow> newDate eng' b' = Some dd' \<longrightarrow>
    \<not> date_before di' dd' \<longrightarrow>
      (\<exists>iv'. validateInvoiceData eng' row' n' = Some iv' \<and> \<not> isValid iv' \<and>
         rowMsg n' ''Due date must be after issue date'' \<in> set (validationErrors iv') \<and>
         issueDate iv' = toISODate di' \<and> dueDate iv' = toISODate dd'))"
  using valid_row_dates late_issue_dates by blast

theorem valid_rows_due_after_issue_witness:
  "(validateInvoiceData DayInMonth sample_row 2 = Some sample_invoice \<and> isValid sample_invoice \<and>
    issueDate sample_invoice < dueDate sample_invoice) \<and>
   (map_of late_row ''issue_date'' = Some ''2024-03-01'' \<and> isValidDate DayUpTo31 ''2024-03-01'' \<and>
    newDate DayUpTo31 ''2024-03-01'' = Some (2024, 3, 1) \<and>
    map_of late_row ''due_date'' = Some ''2024-03-01'' \<and>
    \<not> date_before (2024, 3, 1) (2024, 3, 1) \<and>
    (\<exists>iv'. validateInvoiceData DayUpTo31 late_row 7 = Some iv' \<and> \<not> isValid iv' \<and>
         rowMsg 7 ''Due date must be after issue date'' \<in> set (validationErrors iv') \<and>
         issueDate iv' = toISODate (2024, 3, 1) \<and> dueDate iv' = toISODate (2024, 3, 1)))"
proof -
  have h1: "validateInvoiceData DayInMonth sample_row 2 = Some sample_invoice"
    by (rule sample_row_validated)
  have h2: "isValid sample_invoice" by (simp add: sample_invoice_def)
  have h3: "map_of late_row ''issue_date'' = Some ''2024-03-01''"
           "map_of late_row ''due_date'' = Some ''2024-03-01''"
    by (simp_all add: late_row_def)
  have h4: "\<not> date_before (2024, 3, 1) (2024, 3, 1)" by (simp add: date_before_def)
  show ?thesis
    using valid_rows_due_after_issue [where eng = DayInMonth and row = sample_row and n = 2
        and iv = sample_invoice and eng' = DayUpTo31 and row' = late_row and n' = 7
        and a' = "''2024-03-01''" and b' = "''2024-03-01''" and di' = "(2024, 3, 1)" and dd' = "(2024, 3, 1)"]
      h1 h2 h3 h4 eval_late [of DayUpTo31]
    by blast
qed


subsection \<open>Which amounts the validator accepts\<close>

lemma amount_accepted_iff:
  "(fst (validate_amount row n (es, iv)) = es) =
   (let x = parseFloat (case map_of row ''amount'' of None \<Rightarrow> ''undefined'' | Some v \<Rightarrow> v)
    in \<not> isNaN x \<and> gt_zero x)"
  by (auto simp: validate_amount_def Let_def isNaN_def le_zero_def gt_zero_def split: js_number.splits)

lemma eval_parseFloat_examples:
  "parseFloat ''0'' = Fin 0" "parseFloat ''-5'' = Fin (- 5)" "parseFloat ''abc'' = NaN"
  "parseFloat ''Infinity'' = PosInf" "parseFloat ''undefined'' = NaN"
  by (simp_all add: parseFloat_def readSign_def trimStart_def isWhiteSpace_def readFraction_def
      isDigit_def digitsVal_def digitVal_def toBinary64_def readExponent_def)

lemma amount_examples:
  "fst (validate_amount [(''amount'', ''0'')] n (es, iv)) \<noteq> es"
  "fst (validate_amount [(''amount'', ''-5'')] n (es, iv)) \<noteq> es"
  "fst (validate_amount [(''amount'', ''abc'')] n (es, iv)) \<noteq> es"
  "fst (validate_amount [] n (es, iv)) \<noteq> es"
  "fst (validate_amount [(''amount'', ''0.01'')] n (es, iv)) = es"
  by (simp_all add: validate_amount_def eval_parseFloat_examples eval_parseFloat_cent isNaN_def le_zero_def)

text \<open>
  C7. The amount check lets through every value that is not NaN and not at most zero,
  and positive infinity is such a value: the row below, whose amount is the text
  \<^verbatim>\<open>Infinity\<close>, is returned as valid with a non-finite amount.
\<close>

theorem infinite_amount_accepted:
  "validateInvoiceData eng infinite_row 2 = Some (sample_invoice\<lparr>amount := PosInf\<rparr>) \<and>
   isValid (sample_invoice\<lparr>amount := PosInf\<rparr>) \<and>
   validationErrors (sample_invoice\<lparr>amount := PosInf\<rparr>) = [] \<and>
   \<not> isFinite (amount (sample_invoice\<lparr>amount := PosInf\<rparr>))"
  by (simp add: validateInvoiceData_def infinite_row_def validate_invoice_id_def validate_seller_id_def
      validate_debtor_id_def validate_currency_def validate_amount_def validate_product_def
      validate_issue_date_def validate_due_date_def validate_date_order_def finish_def
      eval_uuid eval_parseFloat_examples eval_issue eval_due eval_currency eval_product eval_order
      isNaN_def le_zero_def isFinite_def emptyInvoice_def sample_invoice_def)


subsection \<open>The CSV parser maps lines to rows by position\<close>

text \<open>On the code units below 256 the two readings of white space are one.\<close>

lemma isWhiteSpace_unit: "isWhiteSpace c = isWhiteSpaceUnit (of_char c)"
proof -
  have b: "of_char c < (256::nat)" by simp
  have k: "CHR 0x09 = char_of (9::nat)" "CHR 0x0A = char_of (10::nat)" "CHR 0x0B = char_of (11::nat)"
    "CHR 0x0C = char_of (12::nat)" "CHR 0x0D = char_of (13::nat)" "CHR 0x20 = char_of (32::nat)"
    "CHR 0xA0 = char_of (160::nat)"
    by code_simp+
  have e: "\<And>n. n < 256 \<Longrightarrow> (c = char_of (n::nat)) = (of_char c = n)" by auto
  have "isWhiteSpace c = (of_char c \<in> {9::nat, 10, 11, 12, 13, 32, 160})"
    unfolding isWhiteSpace_def k by (simp add: e)
  also have "\<dots> = isWhiteSpaceUnit (of_char c)"
  proof -
    have "\<And>n::nat. n < 256 \<Longrightarrow> (n \<in> {9, 10, 11, 12, 13, 32, 160}) = isWhiteSpaceUnit n"
      unfolding isWhiteSpaceUnit_def by auto
    from this[OF b] show ?thesis .
  qed
  finally show ?thesis .
qed

text \<open>
  What \<^verbatim>\<open>split\<close> and \<^verbatim>\<open>trim\<close> do, without their recursion: the pieces of a split
  hold no separator and give the text back when joined with it; a trimmed text is the
  text less a run of white space at each end, and neither starts nor ends with white space.
\<close>

lemma split_not_empty: "split sep s \<noteq> []"
  by (induction s) (auto split: list.splits)

lemma join_split: "join [sep] (split sep s) = s"
proof (induction s)
  case Nil
  then show ?case by simp
next
  case (Cons c cs)
  obtain f fs where f: "split sep cs = f # fs" using split_not_empty[of sep cs] by (cases "split sep cs") auto
  show ?case
  proof (cases "c = sep")
    case True
    then show ?thesis using Cons f by simp
  next
    case False
    then show ?thesis using Cons f by (cases fs) simp_all
  qed
qed

lemma split_no_sep: "sep \<notin> set (concat (split sep s))"
  by (induction s) (auto split: list.splits)

lemma rev_drop_take: "rev (dropWhile P (rev xs)) @ rev (takeWhile P (rev xs)) = xs"
proof -
  have "rev (takeWhile P (rev xs) @ dropWhile P (rev xs)) = rev (rev xs)" by simp
  then show ?thesis by (simp only: rev_append rev_rev_ident)
qed

lemma trim_parts:
  "\<exists>p q. s = p @ trimUnits s @ q \<and> list_all isWhiteSpaceUnit p \<and> list_all isWhiteSpaceUnit q"
proof -
  let ?d = "dropWhile isWhiteSpaceUnit s"
  let ?q = "rev (takeWhile isWhiteSpaceUnit (rev ?d))"
  have 1: "takeWhile isWhiteSpaceUnit s @ ?d = s" by simp
  have 3: "trimUnits s @ ?q = ?d"
    unfolding trimUnits_def by (rule rev_drop_take)
  have a: "list_all isWhiteSpaceUnit (takeWhile isWhiteSpaceUnit s)"
    by (simp add: list_all_iff) (meson set_takeWhileD)
  have b: "list_all isWhiteSpaceUnit ?q"
    by (simp add: list_all_iff) (meson set_takeWhileD)
  have "s = takeWhile isWhiteSpaceUnit s @ trimUnits s @ ?q"
    unfolding 3 by (simp only: 1)
  then show ?thesis using a b by blast
qed

lemma trim_ends:
  "trimUnits s \<noteq> [] \<Longrightarrow> \<not> isWhiteSpaceUnit (hd (trimUnits s)) \<and> \<not> isWhiteSpaceUnit (last (trimUnits s))"
proof -
  assume n: "trimUnits s \<noteq> []"
  let ?d = "dropWhile isWhiteSpaceUnit s"
  let ?e = "dropWhile isWhiteSpaceUnit (rev ?d)"
  let ?q = "rev (takeWhile isWhiteSpaceUnit (rev ?d))"
  have e: "?e \<noteq> []" using n by (simp add: trimUnits_def)
  have l: "\<not> isWhiteSpaceUnit (hd ?e)" using e by (rule hd_dropWhile)
  have last: "last (trimUnits s) = hd ?e" using e by (simp add: trimUnits_def last_rev)
  have d: "?d \<noteq> []"
  proof
    assume "?d = []"
    then have "?e = []" by (simp only: rev.simps dropWhile.simps)
    with e show False by simp
  qed
  have hd_d: "\<not> isWhiteSpaceUnit (hd ?d)" using d by (rule hd_dropWhile)
  have q: "trimUnits s @ ?q = ?d"
    unfolding trimUnits_def by (rule rev_drop_take)
  have "hd (trimUnits s @ ?q) = hd (trimUnits s)" using n by (rule hd_append2)
  then have "hd ?d = hd (trimUnits s)" unfolding q .
  then show ?thesis using hd_d l last by simp
qed

lemma trim_empty_iff: "(trimUnits s = []) = list_all isWhiteSpaceUnit s"
proof
  assume "trimUnits s = []"
  then show "list_all isWhiteSpaceUnit s" using trim_parts[of s] by auto
next
  assume a: "list_all isWhiteSpaceUnit s"
  then have "dropWhile isWhiteSpaceUnit s = []" by (simp add: list_all_iff)
  then show "trimUnits s = []" by (simp only: trimUnits_def rev.simps dropWhile.simps)
qed

lemma nonBlankLines_filter:
  "nonBlankLines csvText = filter (\<lambda>line. \<not> list_all isWhiteSpaceUnit line) (split 0x0A csvText)"
  by (simp add: nonBlankLines_def trim_empty_iff)

lemma splitFields_map:
  "splitFields line = map (\<lambda>v. filter (\<lambda>c. c \<noteq> 0x22) (trimUnits v)) (split 0x2C line)"
  by (simp add: splitFields_def removeQuotes_def)

text \<open>The row built from the headers and the fields of a line.\<close>

lemma assign_snoc:
  "length hs = n \<Longrightarrow>
   foldl (\<lambda>row (header, index). assign row header (f index)) r (zip (hs @ [h]) [0 ..< Suc n]) =
   assign (foldl (\<lambda>row (header, index). assign row header (f index)) r (zip hs [0 ..< n])) h (f n)"
  by simp

lemma fold_assign_lookup:
  "i < length hs \<Longrightarrow> hs ! i \<noteq> units ''__proto__'' \<Longrightarrow>
   \<forall>j. i < j \<and> j < length hs \<longrightarrow> hs ! j \<noteq> hs ! i \<Longrightarrow>
   (foldl (\<lambda>row (header, index). assign row header (f index)) r (zip hs [0 ..< length hs])) (hs ! i)
     = Some (f i)"
proof (induction hs rule: rev_induct)
  case Nil
  then show ?case by simp
next
  case (snoc h hs)
  let ?prev = "foldl (\<lambda>row (header, index). assign row header (f index)) r (zip hs [0 ..< length hs])"
  have step: "foldl (\<lambda>row (header, index). assign row header (f index)) r
                (zip (hs @ [h]) [0 ..< length (hs @ [h])]) = assign ?prev h (f (length hs))"
    using assign_snoc[of hs "length hs" f r h] by simp
  show ?case
  proof (cases "i = length hs")
    case True
    then show ?thesis unfolding step using snoc.prems(2) by (simp add: assign_def)
  next
    case False
    with snoc.prems(1) have i: "i < length hs" by simp
    have ne: "h \<noteq> hs ! i"
      using snoc.prems(3)[rule_format, of "length hs"] i by (simp add: nth_append)
    have p: "hs ! i \<noteq> units ''__proto__''" using snoc.prems(2) i by (simp add: nth_append)
    have later: "\<forall>j. i < j \<and> j < length hs \<longrightarrow> hs ! j \<noteq> hs ! i"
    proof (intro allI impI)
      fix j assume j: "i < j \<and> j < length hs"
      then show "hs ! j \<noteq> hs ! i"
        using snoc.prems(3)[rule_format, of j] i by (simp add: nth_append)
    qed
    have "?prev (hs ! i) = Some (f i)" using snoc.IH[OF i p later] .
    then show ?thesis unfolding step using ne i by (simp add: assign_def nth_append)
  qed
qed

lemma fold_assign_dom:
  "dom (foldl (\<lambda>row (header, index). assign row header (f index)) r (zip hs [0 ..< length hs]))
     = dom r \<union> (set hs - {units ''__proto__''})"
proof (induction hs rule: rev_induct)
  case Nil
  then show ?case by simp
next
  case (snoc h hs)
  have step: "foldl (\<lambda>row (header, index). assign row header (f index)) r
                (zip (hs @ [h]) [0 ..< length (hs @ [h])]) =
              assign (foldl (\<lambda>row (header, index). assign row header (f index)) r (zip hs [0 ..< length hs]))
                h (f (length hs))"
    using assign_snoc[of hs "length hs" f r h] by simp
  show ?case unfolding step using snoc.IH by (auto simp: assign_def)
qed

lemma makeRow_lookup:
  "i < length headers \<Longrightarrow> headers ! i \<noteq> units ''__proto__'' \<Longrightarrow>
   \<forall>j. i < j \<and> j < length headers \<longrightarrow> headers ! j \<noteq> headers ! i \<Longrightarrow>
   (makeRow headers values) (headers ! i) = Some (fieldAt values i)"
  unfolding makeRow_def by (rule fold_assign_lookup)

lemma makeRow_keys: "dom (makeRow headers values) = set headers - {units ''__proto__''}"
  unfolding makeRow_def using fold_assign_dom[of "fieldAt values" Map.empty headers] by simp

lemma parseCSV_short: "nonBlankLines csvText = [] \<or> (\<exists>h. nonBlankLines csvText = [h]) \<Longrightarrow> parseCSV csvText = []"
  by (auto simp: parseCSV_def)

lemma parseCSV_map:
  "nonBlankLines csvText = h # ls \<Longrightarrow>
   parseCSV csvText = map (\<lambda>line. makeRow (splitFields h) (splitFields line)) ls"
  by (cases ls) (simp_all add: parseCSV_def Let_def)

lemma parseCSV_nth:
  "nonBlankLines csvText = h # ls \<Longrightarrow> k < length ls \<Longrightarrow>
   parseCSV csvText ! k = makeRow (splitFields h) (splitFields (ls ! k))"
  by (simp add: parseCSV_map)

lemma parseCSV_length: "nonBlankLines csvText = h # ls \<Longrightarrow> length (parseCSV csvText) = length ls"
  by (simp add: parseCSV_map)

text \<open>
  C8, as the code has it. The text is cut at its line feeds and a line is kept unless it
  is white space only; the first kept line is the header. A line is cut at its commas
  (the pieces hold no comma and, joined with commas, are the line again), and a piece
  becomes a field by taking the white space off both its ends and then every double
  quote out of what is left. Each later kept line gives one row. The name
  \<^verbatim>\<open>__proto__\<close> left aside, the keys of a row are the header fields, and the value under the
  header field at position \<open>i\<close> (the last such position, for a field that occurs twice) is
  field \<open>i\<close> of the line, or the empty string when the line has no field \<open>i\<close>. A text with
  no kept line, or with a header only, gives no rows.
\<close>

theorem parseCSV_rows:
  "split sep s \<noteq> [] \<and> join [sep] (split sep s) = s \<and> sep \<notin> set (concat (split sep s)) \<and>
   (\<exists>p q. s = p @ trimUnits s @ q \<and> list_all isWhiteSpaceUnit p \<and> list_all isWhiteSpaceUnit q) \<and>
   (trimUnits s \<noteq> [] \<longrightarrow>
      \<not> isWhiteSpaceUnit (hd (trimUnits s)) \<and> \<not> isWhiteSpaceUnit (last (trimUnits s))) \<and>
   nonBlankLines csvText = filter (\<lambda>line. \<not> list_all isWhiteSpaceUnit line) (split 0x0A csvText) \<and>
   splitFields line = map (\<lambda>v. filter (\<lambda>c. c \<noteq> 0x22) (trimUnits v)) (split 0x2C line) \<and>
   (nonBlankLines csvText = [] \<longrightarrow> parseCSV csvText = []) \<and>
   (nonBlankLines csvText = [h] \<longrightarrow> parseCSV csvText = []) \<and>
   (nonBlankLines csvText = h # ls \<longrightarrow>
      length (parseCSV csvText) = length ls \<and>
      (k < length ls \<longrightarrow>
         (key \<noteq> units ''__proto__'' \<longrightarrow>
            (key \<in> dom (parseCSV csvText ! k)) = (key \<in> set (splitFields h))) \<and>
         (i < length (splitFields h) \<longrightarrow> splitFields h ! i \<noteq> units ''__proto__'' \<longrightarrow>
          (\<forall>j. i < j \<and> j < length (splitFields h) \<longrightarrow> splitFields h ! j \<noteq> splitFields h ! i) \<longrightarrow>
            (parseCSV csvText ! k) (splitFields h ! i) =
              Some (if i < length (splitFields (ls ! k)) then splitFields (ls ! k) ! i else []))))"
proof (intro conjI impI)
  show "split sep s \<noteq> []" by (rule split_not_empty)
  show "join [sep] (split sep s) = s" by (rule join_split)
  show "sep \<notin> set (concat (split sep s))" by (rule split_no_sep)
  show "\<exists>p q. s = p @ trimUnits s @ q \<and> list_all isWhiteSpaceUnit p \<and> list_all isWhiteSpaceUnit q"
    by (rule trim_parts)
  show "nonBlankLines csvText = filter (\<lambda>line. \<not> list_all isWhiteSpaceUnit line) (split 0x0A csvText)"
    by (rule nonBlankLines_filter)
  show "splitFields line = map (\<lambda>v. filter (\<lambda>c. c \<noteq> 0x22) (trimUnits v)) (split 0x2C line)"
    by (rule splitFields_map)
next
  assume "trimUnits s \<noteq> []"
  then show "\<not> isWhiteSpaceUnit (hd (trimUnits s))" using trim_ends by blast
next
  assume "trimUnits s \<noteq> []"
  then show "\<not> isWhiteSpaceUnit (last (trimUnits s))" using trim_ends by blast
next
  assume "nonBlankLines csvText = []"
  then show "parseCSV csvText = []" by (simp add: parseCSV_short)
next
  assume "nonBlankLines csvText = [h]"
  then show "parseCSV csvText = []" by (simp add: parseCSV_short)
next
  assume "nonBlankLines csvText = h # ls"
  then show "length (parseCSV csvText) = length ls" by (rule parseCSV_length)
next
  assume "nonBlankLines csvText = h # ls" "k < length ls" "key \<noteq> units ''__proto__''"
  then show "(key \<in> dom (parseCSV csvText ! k)) = (key \<in> set (splitFields h))"
    by (simp add: parseCSV_nth makeRow_keys)
next
  assume a: "nonBlankLines csvText = h # ls" "k < length ls" "i < length (splitFields h)"
    "splitFields h ! i \<noteq> units ''__proto__''"
    "\<forall>j. i < j \<and> j < length (splitFields h) \<longrightarrow> splitFields h ! j \<noteq> splitFields h ! i"
  have "(parseCSV csvText ! k) (splitFields h ! i) = Some (fieldAt (splitFields (ls ! k)) i)"
    unfolding parseCSV_nth[OF a(1,2)] using a(3,4,5) by (rule makeRow_lookup)
  then show "(parseCSV csvText ! k) (splitFields h ! i) =
              Some (if i < length (splitFields (ls ! k)) then splitFields (ls ! k) ! i else [])"
    by (simp add: fieldAt_def)
qed


lemma eval_sample_csv:
  "nonBlankLines sample_csv =
     [sample_header,
      sample_line @ [0x0D],
      units ''a-2,7'']"
  "splitFields sample_header =
     [units ''invoice_id'', units ''amount'', units ''product'']"
  "splitFields (sample_line @ [0x0D]) =
     [units ''a-1'', units ''5'', units ''bolts'']"
  "splitFields (units ''a-2,7'') = [units ''a-2'', units ''7'']"
  "nonBlankLines [] = []"
  "units ''invoice_id'' \<noteq> units ''__proto__''" "units ''product'' \<noteq> units ''__proto__''"
  "units ''amount'' \<noteq> units ''__proto__''" "units ''total'' \<noteq> units ''__proto__''"
  "units ''amount'' \<noteq> units ''invoice_id''" "units ''product'' \<noteq> units ''invoice_id''"
  "units ''total'' \<notin> set [units ''invoice_id'', units ''amount'', units ''product'']"
  "trimUnits sample_field = [0x22] @ units ''amount'' @ [0x22]"
  "isWhiteSpaceUnit 0x22 = False"
  by (simp_all add: parseCSV_def spec_parseCSV_def sample_csv_def sample_header_def sample_line_def
      sample_field_def quoted_csv_def makeRow_def assign_def fieldAt_def nonBlankLines_def
      splitFields_def spec_splitFields_def stripSurrounding_def removeQuotes_def trimUnits_def
      isWhiteSpaceUnit_def units_def)

theorem parseCSV_rows_witness:
  "nonBlankLines sample_csv =
     [sample_header,
      sample_line @ [0x0D],
      units ''a-2,7''] \<and>
   splitFields sample_header =
     [units ''invoice_id'', units ''amount'', units ''product''] \<and>
   length (parseCSV sample_csv) = 2 \<and>
   (parseCSV sample_csv ! 0) (units ''invoice_id'') = Some (units ''a-1'') \<and>
   (parseCSV sample_csv ! 1) (units ''product'') = Some [] \<and>
   units ''amount'' \<in> dom (parseCSV sample_csv ! 1) \<and>
   units ''total'' \<notin> dom (parseCSV sample_csv ! 1) \<and>
   trimUnits sample_field \<noteq> [] \<and>
   \<not> isWhiteSpaceUnit (hd (trimUnits sample_field)) \<and>
   nonBlankLines [] = [] \<and> parseCSV [] = []"
proof -
  let ?h = sample_header
  let ?ls = "[sample_line @ [0x0D], units ''a-2,7'']"
  let ?s = sample_field
  note t = parseCSV_rows [where csvText = sample_csv and h = ?h and ls = ?ls and k = 1 and i = 2
      and key = "units ''amount''" and s = ?s]
  note u = parseCSV_rows [where csvText = sample_csv and h = ?h and ls = ?ls and k = 1 and i = 2
      and key = "units ''total''"]
  note v = parseCSV_rows [where csvText = sample_csv and h = ?h and ls = ?ls and k = 0 and i = 0]
  note t10 = t [THEN conjunct2, THEN conjunct2, THEN conjunct2, THEN conjunct2, THEN conjunct2,
      THEN conjunct2, THEN conjunct2, THEN conjunct2, THEN conjunct2, THEN mp, OF eval_sample_csv(1)]
  note u10 = u [THEN conjunct2, THEN conjunct2, THEN conjunct2, THEN conjunct2, THEN conjunct2,
      THEN conjunct2, THEN conjunct2, THEN conjunct2, THEN conjunct2, THEN mp, OF eval_sample_csv(1)]
  note v10 = v [THEN conjunct2, THEN conjunct2, THEN conjunct2, THEN conjunct2, THEN conjunct2,
      THEN conjunct2, THEN conjunct2, THEN conjunct2, THEN conjunct2, THEN mp, OF eval_sample_csv(1)]
  have l: "length (parseCSV sample_csv) = 2" using t10 [THEN conjunct1] by simp
  have k1: "1 < length ?ls" by simp
  have k0: "0 < length ?ls" by simp
  note t11 = t10 [THEN conjunct2, THEN mp, OF k1]
  note u11 = u10 [THEN conjunct2, THEN mp, OF k1]
  note v11 = v10 [THEN conjunct2, THEN mp, OF k0]
  have ka: "units ''amount'' \<in> dom (parseCSV sample_csv ! 1)"
    using t11 [THEN conjunct1, THEN mp, OF eval_sample_csv(8)] by (simp add: eval_sample_csv(2))
  have kt: "units ''total'' \<notin> dom (parseCSV sample_csv ! 1)"
    unfolding u11 [THEN conjunct1, THEN mp, OF eval_sample_csv(9)] eval_sample_csv(2)
    by (rule eval_sample_csv(12))
  have i2: "2 < length (splitFields ?h)" by (simp add: eval_sample_csv(2))
  have p2: "splitFields ?h ! 2 \<noteq> units ''__proto__''"
    using eval_sample_csv(7) by (simp add: eval_sample_csv(2))
  have d2: "\<forall>j. 2 < j \<and> j < length (splitFields ?h) \<longrightarrow> splitFields ?h ! j \<noteq> splitFields ?h ! 2"
  proof (intro allI impI)
    fix j assume "2 < j \<and> j < length (splitFields ?h)"
    moreover have "length (splitFields ?h) = 3" by (simp add: eval_sample_csv(2))
    ultimately have False by linarith
    then show "splitFields ?h ! j \<noteq> splitFields ?h ! 2" ..
  qed
  have p: "(parseCSV sample_csv ! 1) (units ''product'') = Some []"
    using t11 [THEN conjunct2, THEN mp, OF i2, THEN mp, OF p2, THEN mp, OF d2]
    by (simp add: eval_sample_csv(2,4))
  have i0: "0 < length (splitFields ?h)" by (simp add: eval_sample_csv(2))
  have p0: "splitFields ?h ! 0 \<noteq> units ''__proto__''"
    using eval_sample_csv(6) by (simp add: eval_sample_csv(2))
  have d0: "\<forall>j. 0 < j \<and> j < length (splitFields ?h) \<longrightarrow> splitFields ?h ! j \<noteq> splitFields ?h ! 0"
  proof (intro allI impI)
    fix j assume "0 < j \<and> j < length (splitFields ?h)"
    moreover have "length (splitFields ?h) = 3" by (simp add: eval_sample_csv(2))
    ultimately have "j = 1 \<or> j = 2" by linarith
    then show "splitFields ?h ! j \<noteq> splitFields ?h ! 0"
      using eval_sample_csv(10,11) by (auto simp: eval_sample_csv(2))
  qed
  have a: "(parseCSV sample_csv ! 0) (units ''invoice_id'') = Some (units ''a-1'')"
    using v11 [THEN conjunct2, THEN mp, OF i0, THEN mp, OF p0, THEN mp, OF d0]
    by (simp add: eval_sample_csv(2,3))
  have n: "trimUnits ?s \<noteq> []" by (simp add: eval_sample_csv(13))
  have w: "\<not> isWhiteSpaceUnit (hd (trimUnits ?s))"
    using t [THEN conjunct2, THEN conjunct2, THEN conjunct2, THEN conjunct2, THEN conjunct1, THEN mp, OF n]
    by simp
  have z: "parseCSV [] = []"
    using parseCSV_rows [where csvText = "[]", THEN conjunct2, THEN conjunct2, THEN conjunct2,
        THEN conjunct2, THEN conjunct2, THEN conjunct2, THEN conjunct2, THEN conjunct1]
      eval_sample_csv(5) by simp
  show ?thesis using l ka kt p a n w z eval_sample_csv(1,2,5) by simp
qed

lemma eval_quoted_csv:
  "(parseCSV quoted_csv ! 0) (units ''size in'') = Some (units ''3'')"
  "(spec_parseCSV quoted_csv ! 0) (units ''size in'') = None"
  "(spec_parseCSV quoted_csv ! 0) (units (''size '' @ [CHR 0x22] @ ''in'')) = Some (units ''3'')"
  "length (parseCSV quoted_csv) = 1"
  by (simp_all add: parseCSV_def spec_parseCSV_def sample_csv_def sample_header_def sample_line_def
      sample_field_def quoted_csv_def makeRow_def assign_def fieldAt_def nonBlankLines_def
      splitFields_def spec_splitFields_def stripSurrounding_def removeQuotes_def trimUnits_def
      isWhiteSpaceUnit_def units_def)

text \<open>
  C8 as stated fails on a field with a quote inside it: the parser drops that quote too,
  where taking off only the surrounding quotes and white space would keep it. The header
  \<^verbatim>\<open>size "in"\<close> is read as \<^verbatim>\<open>size in\<close>.
\<close>

theorem parseCSV_quotes_counterexample:
  "(parseCSV quoted_csv ! 0) (units ''size in'') = Some (units ''3'') \<and>
   (spec_parseCSV quoted_csv ! 0) (units ''size in'') = None \<and>
   (spec_parseCSV quoted_csv ! 0) (units (''size '' @ [CHR 0x22] @ ''in'')) = Some (units ''3'') \<and>
   parseCSV quoted_csv \<noteq> spec_parseCSV quoted_csv"
proof -
  have "parseCSV quoted_csv \<noteq> spec_parseCSV quoted_csv"
  proof
    assume "parseCSV quoted_csv = spec_parseCSV quoted_csv"
    then have "(parseCSV quoted_csv ! 0) (units ''size in'') = (spec_parseCSV quoted_csv ! 0) (units ''size in'')"
      by simp
    then show False by (simp add: eval_quoted_csv(1,2))
  qed
  then show ?thesis using eval_quoted_csv(1,2,3) by blast
qed

text \<open>
  A line of a no-break space, or of other white space that is not ASCII, is dropped; a
  line of a zero-width space (U+200B, no white space) is kept. A header \<^verbatim>\<open>__proto__\<close>
  gives the row no property of its own.
\<close>

lemma parseCSV_examples:
  "length (parseCSV (units ''a'' @ [0x0A, 0xA0, 0x0A] @ units ''x'')) = 1"
  "length (parseCSV (units ''a'' @ [0x0A, 0x2028, 0xFEFF, 0x3000, 0x0A] @ units ''x'')) = 1"
  "length (parseCSV (units ''a'' @ [0x0A, 0x200B, 0x0A] @ units ''x'')) = 2"
  "(parseCSV (units ''__proto__,a'' @ [0x0A] @ units ''x,y'') ! 0) (units ''__proto__'') = None"
  "(parseCSV (units ''__proto__,a'' @ [0x0A] @ units ''x,y'') ! 0) (units ''a'') = Some (units ''y'')"
  by (simp_all add: parseCSV_def spec_parseCSV_def sample_csv_def sample_header_def sample_line_def
      sample_field_def quoted_csv_def makeRow_def assign_def fieldAt_def nonBlankLines_def
      splitFields_def spec_splitFields_def stripSurrounding_def removeQuotes_def trimUnits_def
      isWhiteSpaceUnit_def units_def)


subsection \<open>The extension filter\<close>

lemma filter_length_eq: "length (filter P xs) = length xs \<Longrightarrow> filter P xs = xs"
proof (induction xs)
  case Nil
  then show ?case by simp
next
  case (Cons a xs)
  show ?case
  proof (cases "P a")
    case True
    with Cons show ?thesis by simp
  next
    case False
    have "length (filter P xs) \<le> length xs" by simp
    with Cons.prems False show ?thesis by simp
  qed
qed

lemma mixed_selection_rejected:
  "filter isInvoiceFile files \<noteq> files \<Longrightarrow> \<exists>msg. handleFileSelect (Some files) = Rejected msg"
  using filter_length_eq[of isInvoiceFile files] by (auto simp: handleFileSelect_def Let_def)

lemma accepted_selection:
  "files \<noteq> [] \<Longrightarrow> filter isInvoiceFile files = files \<Longrightarrow> handleFileSelect (Some files) = Uploading files"
  by (simp add: handleFileSelect_def Let_def)

text \<open>
  C4. A file named \<^verbatim>\<open>invoices.xls\<close>, which the picker offers, does not pass the filter:
  selected alone or next to a CSV file, it has the whole selection rejected.
\<close>

theorem xls_file_rejected:
  "pickerAccepts ''invoices.xls'' \<and> \<not> isInvoiceFile ''invoices.xls'' \<and>
   isInvoiceFile ''Invoices.CSV'' \<and> isInvoiceFile ''march.xlsx'' \<and>
   handleFileSelect (Some [''invoices.xls'']) =
     Rejected ''Please select CSV or Excel files containing invoice data'' \<and>
   handleFileSelect (Some [''Invoices.CSV'', ''invoices.xls'']) =
     Rejected ''Only CSV and Excel files are supported for invoice processing''"
  by code_simp


subsection \<open>The trace of the import loop\<close>

lemma trace_startRows:
  "trace (foldl (\<lambda>s (g, iv). startRow g iv s) st ps) =
   trace st @ map (\<lambda>p. CreateIssued (fst p)) (filter (\<lambda>p. isValid (snd p)) ps)"
  by (induction ps arbitrary: st) (auto simp: startRow_def)

lemma trace_settleRows:
  "trace (foldl (\<lambda>s (g, iv). settleRow env g iv s) st ps) =
   trace st @ map (\<lambda>p. CreateSettled (fst p)) ps"
  by (induction ps arbitrary: st) (auto simp: settleRow_def Let_def split: create_result.splits)

lemma case_prod_snd: "(\<lambda>(g, iv). isValid iv) = (\<lambda>p. isValid (snd p))"
  by auto

lemma trace_processBatch:
  "trace (processBatch env i batch st) = trace st @ batchEvents env i batch"
  by (simp add: processBatch_def batchEvents_def Let_def trace_startRows trace_settleRows case_prod_snd)

lemma trace_importLoop:
  "trace (importLoop env xs i st) = trace st @ loopEvents env xs i"
proof (induction env xs i st rule: importLoop.induct)
  case (1 env invoiceData i st)
  show ?case
  proof (cases "i < length invoiceData")
    case True
    then show ?thesis
      using 1 by (subst importLoop.simps, subst loopEvents.simps) (simp add: trace_processBatch)
  next
    case False
    then show ?thesis
      by (subst importLoop.simps, subst loopEvents.simps) simp
  qed
qed

subsection \<open>The counts of the import loop\<close>

lemma counts_startRows:
  "successfulCount (foldl (\<lambda>s (g, iv). startRow g iv s) st ps) = successfulCount st"
  "failedCount (foldl (\<lambda>s (g, iv). startRow g iv s) st ps) =
     failedCount st + length (filter (\<lambda>p. \<not> isValid (snd p)) ps)"
  by (induction ps arbitrary: st) (auto simp: startRow_def)

lemma counts_settleRows:
  "successfulCount (foldl (\<lambda>s (g, iv). settleRow env g iv s) st ps) =
     successfulCount st + length (filter (\<lambda>p. createAnswer env (fst p) = Created) ps)"
  "failedCount (foldl (\<lambda>s (g, iv). settleRow env g iv s) st ps) =
     failedCount st + length (filter (\<lambda>p. createAnswer env (fst p) \<noteq> Created) ps)"
  by (induction ps arbitrary: st) (auto simp: settleRow_def Let_def split: create_result.splits)

lemma filter_length_mset: "mset xs = mset ys \<Longrightarrow> length (filter P xs) = length (filter P ys)"
  by (metis mset_filter size_mset)

lemma succeeded_filter:
  "filter (\<lambda>p. createAnswer env (fst p) = Created) (filter (\<lambda>p. isValid (snd p)) ps) =
   filter (succeeded env) ps"
  by (induction ps) (auto simp: succeeded_def)

lemma failed_filter:
  "length (filter (\<lambda>p. \<not> isValid (snd p)) ps) +
   length (filter (\<lambda>p. createAnswer env (fst p) \<noteq> Created) (filter (\<lambda>p. isValid (snd p)) ps)) =
   length (filter (\<lambda>p. \<not> succeeded env p) ps)"
  by (induction ps) (auto simp: succeeded_def)

lemma counts_processBatch:
  assumes "fair env"
  shows "successfulCount (processBatch env i batch st) =
           successfulCount st + length (filter (succeeded env) (numbered i batch))"
    and "failedCount (processBatch env i batch st) =
           failedCount st + length (filter (\<lambda>p. \<not> succeeded env p) (numbered i batch))"
proof -
  let ?pending = "filter (\<lambda>p. isValid (snd p)) (numbered i batch)"
  have m: "mset (settleOrder env ?pending) = mset ?pending" using assms by (simp add: fair_def)
  have a: "length (filter (\<lambda>p. createAnswer env (fst p) = Created) (settleOrder env ?pending)) =
           length (filter (succeeded env) (numbered i batch))"
    using filter_length_mset[OF m, of "\<lambda>p. createAnswer env (fst p) = Created"]
    by (simp only: succeeded_filter)
  have b: "length (filter (\<lambda>p. \<not> isValid (snd p)) (numbered i batch)) +
           length (filter (\<lambda>p. createAnswer env (fst p) \<noteq> Created) (settleOrder env ?pending)) =
           length (filter (\<lambda>p. \<not> succeeded env p) (numbered i batch))"
    using filter_length_mset[OF m, of "\<lambda>p. createAnswer env (fst p) \<noteq> Created"]
    by (simp only: failed_filter)
  have s: "successfulCount (processBatch env i batch st) =
           successfulCount st + length (filter (\<lambda>p. createAnswer env (fst p) = Created) (settleOrder env ?pending))"
    by (simp add: processBatch_def Let_def counts_settleRows counts_startRows case_prod_snd)
  have f: "failedCount (processBatch env i batch st) =
           failedCount st + (length (filter (\<lambda>p. \<not> isValid (snd p)) (numbered i batch)) +
           length (filter (\<lambda>p. createAnswer env (fst p) \<noteq> Created) (settleOrder env ?pending)))"
    by (simp add: processBatch_def Let_def counts_settleRows counts_startRows case_prod_snd)
  show "successfulCount (processBatch env i batch st) =
           successfulCount st + length (filter (succeeded env) (numbered i batch))"
    using s a by (simp only:)
  show "failedCount (processBatch env i batch st) =
           failedCount st + length (filter (\<lambda>p. \<not> succeeded env p) (numbered i batch))"
    using f b by (simp only:)
qed

lemma length_numbered: "length (numbered i batch) = length batch"
  unfolding numbered_def length_zip length_upt by simp

lemma nth_numbered: "j < length batch \<Longrightarrow> numbered i batch ! j = (i + 1 + j, batch ! j)"
proof -
  assume j: "j < length batch"
  then have "i + 1 + j < i + 1 + length batch" by simp
  then have "[i + 1 ..< i + 1 + length batch] ! j = i + 1 + j" by (rule nth_upt)
  moreover have "j < length [i + 1 ..< i + 1 + length batch]" using j unfolding length_upt by simp
  ultimately show ?thesis unfolding numbered_def using j by (simp only: nth_zip)
qed

lemma numbered_slice:
  "numbered i (take k (drop i xs)) = take k (drop i (numbered 0 xs))"
proof (rule nth_equalityI)
  show "length (numbered i (take k (drop i xs))) = length (take k (drop i (numbered 0 xs)))"
    by (simp add: length_numbered)
next
  fix j assume "j < length (numbered i (take k (drop i xs)))"
  then have j: "j < k" "i + j < length xs" by (auto simp: length_numbered)
  then have "j < length (take k (drop i xs))" by simp
  then have "numbered i (take k (drop i xs)) ! j = (i + 1 + j, take k (drop i xs) ! j)"
    by (rule nth_numbered)
  moreover have "take k (drop i (numbered 0 xs)) ! j = (0 + 1 + (i + j), xs ! (i + j))"
    using j nth_numbered[of "i + j" xs 0] by (simp add: length_numbered)
  ultimately show "numbered i (take k (drop i xs)) ! j = take k (drop i (numbered 0 xs)) ! j"
    using j by simp
qed
lemma drop_split: "drop i ys = take k (drop i ys) @ drop (i + k) ys"
  by (metis add.commute append_take_drop_id drop_drop)

lemma counts_importLoop:
  "fair env \<Longrightarrow>
   successfulCount (importLoop env xs i st) =
     successfulCount st + length (filter (succeeded env) (drop i (numbered 0 xs))) \<and>
   failedCount (importLoop env xs i st) =
     failedCount st + length (filter (\<lambda>p. \<not> succeeded env p) (drop i (numbered 0 xs)))"
proof (induction env xs i st rule: importLoop.induct)
  case (1 env invoiceData i st)
  show ?case
  proof (cases "i < length invoiceData")
    case True
    have s: "filter P (drop i (numbered 0 invoiceData)) =
          filter P (numbered i (take batchSize (drop i invoiceData))) @
          filter P (drop (i + batchSize) (numbered 0 invoiceData))" for P
      using drop_split[of i "numbered 0 invoiceData" batchSize]
      by (metis filter_append numbered_slice)
    have step: "importLoop env invoiceData i st =
       importLoop env invoiceData (i + batchSize)
         (processBatch env i (take batchSize (drop i invoiceData)) st)"
      using True by (subst importLoop.simps) simp
    show ?thesis
      unfolding step using "1.IH"[OF True "1.prems"] "1.prems"
      by (simp add: counts_processBatch s)
  next
    case False
    then have "drop i (numbered 0 invoiceData) = []" by (simp add: length_numbered)
    moreover have "importLoop env invoiceData i st = st"
      using False by (subst importLoop.simps) simp
    ultimately show ?thesis by simp
  qed
qed

subsection \<open>What the events of the loop are\<close>

lemma map_filter_append: "List.map_filter f (xs @ ys) = List.map_filter f xs @ List.map_filter f ys"
  by (simp add: List.map_filter_def)


lemma map_filter_map_None: "List.map_filter (\<lambda>x. None) xs = []"
  by (simp add: List.map_filter_def)

lemma map_filter_map: "List.map_filter f (map g xs) = List.map_filter (\<lambda>x. f (g x)) xs"
  by (simp add: List.map_filter_def filter_map comp_def)




lemma jobWrites_batchEvents: "jobWrites (batchEvents env i batch) = []"
  by (simp add: jobWrites_def batchEvents_def map_filter_append map_filter_map
      map_filter_map_None List.map_filter_simps)


lemma loopEvents_step:
  "i < length xs \<Longrightarrow>
   loopEvents env xs i = batchEvents env i (take batchSize (drop i xs)) @ loopEvents env xs (i + batchSize)"
  by (subst loopEvents.simps) simp

lemma loopEvents_done: "\<not> i < length xs \<Longrightarrow> loopEvents env xs i = []"
  by (subst loopEvents.simps) simp

lemma jobWrites_loopEvents: "jobWrites (loopEvents env xs i) = []"
proof (induction env xs i rule: loopEvents.induct)
  case (1 env invoiceData i)
  show ?case
  proof (cases "i < length invoiceData")
    case True
    have "jobWrites (loopEvents env invoiceData i) =
          jobWrites (batchEvents env i (take batchSize (drop i invoiceData))) @
          jobWrites (loopEvents env invoiceData (i + batchSize))"
      unfolding loopEvents_step[OF True] by (simp add: jobWrites_def map_filter_append)
    then show ?thesis using "1.IH"[OF True] by (simp add: jobWrites_batchEvents)
  next
    case False
    then show ?thesis by (simp add: loopEvents_done jobWrites_def List.map_filter_simps)
  qed
qed











subsection \<open>Runs of the importer\<close>

lemma process_completes:
  assumes "jobCreateAnswer env = JobCreateResult None (Some jobId)" "jobId \<noteq> []"
    "downloadAnswer env = Inr invoiceData"
  shows "processInvoiceFile env fileKey fileName =
     ((creation fileKey fileName # loopEvents env invoiceData 0) @
        [JobUpdate jobId (updateData invoiceData (finalState env fileKey fileName invoiceData))], None)"
  using assms
  by (simp add: processInvoiceFile_def Let_def finalState_def creation_def trace_importLoop emptyState_def)

lemma jobWrites_run: "jobWrites (creation fileKey fileName # loopEvents env xs i) = [initialJob]"
  using jobWrites_loopEvents[of env xs i]
  by (simp add: jobWrites_def creation_def List.map_filter_simps)

lemma counts_final:
  assumes "fair env"
  shows "successfulCount (finalState env fileKey fileName xs) = length (filter (succeeded env) (numbered 0 xs))"
    and "failedCount (finalState env fileKey fileName xs) = length (filter (\<lambda>p. \<not> succeeded env p) (numbered 0 xs))"
  using counts_importLoop[OF assms, of xs 0 "emptyState [creation fileKey fileName]"]
  by (simp_all add: finalState_def emptyState_def)

lemma finalStatus_iff:
  assumes "successfulCount st = length (filter P ps)" "failedCount st = length (filter (\<lambda>p. \<not> P p) ps)"
  shows "(finalStatus st = FAILED) = (length (filter P ps) = 0 \<and> 0 < length ps)"
    and "finalStatus st \<noteq> FAILED \<longrightarrow> finalStatus st = COMPLETED"
proof -
  have "length (filter P ps) + length (filter (\<lambda>p. \<not> P p) ps) = length ps"
    by (rule sum_length_filter_compl)
  then show "(finalStatus st = FAILED) = (length (filter P ps) = 0 \<and> 0 < length ps)"
    using assms by (auto simp: finalStatus_def)
  show "finalStatus st \<noteq> FAILED \<longrightarrow> finalStatus st = COMPLETED"
    by (simp add: finalStatus_def)
qed

text \<open>
  C1. In a fair world where the job is created and the file is downloaded and parsed, the
  run ends normally with one update of the job after the loop, the only write to the job
  since its creation. That update stores the number of rows, the number of rows that
  succeeded (valid and created) and the number that did not, and its status is FAILED
  exactly when no row succeeded and there was at least one row; otherwise it is
  COMPLETED.
\<close>

theorem final_status_and_counts:
  assumes "fair env" "jobCreateAnswer env = JobCreateResult None (Some jobId)" "jobId \<noteq> []"
    "downloadAnswer env = Inr invoiceData"
  shows "\<exists>t w. processInvoiceFile env fileKey fileName = (t @ [JobUpdate jobId w], None) \<and>
     jobWrites t = [initialJob] \<and>
     jw_totalInvoices w = Some (length invoiceData) \<and>
     jw_successfulInvoices w = Some (length (filter (succeeded env) (numbered 0 invoiceData))) \<and>
     jw_failedInvoices w = Some (length (filter (\<lambda>p. \<not> succeeded env p) (numbered 0 invoiceData))) \<and>
     (jw_status w = FAILED \<longleftrightarrow>
        length (filter (succeeded env) (numbered 0 invoiceData)) = 0 \<and> 0 < length invoiceData) \<and>
     (jw_status w \<noteq> FAILED \<longrightarrow> jw_status w = COMPLETED)"
proof -
  let ?st = "finalState env fileKey fileName invoiceData"
  let ?t = "creation fileKey fileName # loopEvents env invoiceData 0"
  let ?w = "updateData invoiceData ?st"
  have c: "successfulCount ?st = length (filter (succeeded env) (numbered 0 invoiceData))"
     "failedCount ?st = length (filter (\<lambda>p. \<not> succeeded env p) (numbered 0 invoiceData))"
    using counts_final[OF assms(1)] by simp_all
  have s: "(jw_status ?w = FAILED) =
       (length (filter (succeeded env) (numbered 0 invoiceData)) = 0 \<and> 0 < length invoiceData)"
    "jw_status ?w \<noteq> FAILED \<longrightarrow> jw_status ?w = COMPLETED"
    using finalStatus_iff[OF c] by (simp_all add: updateData_def length_numbered)
  have "processInvoiceFile env fileKey fileName = (?t @ [JobUpdate jobId ?w], None)"
    using process_completes[OF assms(2,3,4)] .
  moreover have "jobWrites ?t = [initialJob]" by (rule jobWrites_run)
  moreover have "jw_totalInvoices ?w = Some (length invoiceData)"
    "jw_successfulInvoices ?w = Some (length (filter (succeeded env) (numbered 0 invoiceData)))"
    "jw_failedInvoices ?w = Some (length (filter (\<lambda>p. \<not> succeeded env p) (numbered 0 invoiceData)))"
    using c by (simp_all add: updateData_def)
  ultimately show ?thesis using s by blast
qed

lemma fair_world: "fair (world answers rows)"
  by (simp add: fair_def world_def)

lemma eval_sixty:
  "length (filter (succeeded (world ten_fail sixty)) (numbered 0 sixty)) = 50"
  "length (filter (\<lambda>p. \<not> succeeded (world ten_fail sixty) p) (numbered 0 sixty)) = 10"
  by code_simp+

theorem final_status_and_counts_witness:
  "fair (world ten_fail sixty) \<and>
   jobCreateAnswer (world ten_fail sixty) = JobCreateResult None (Some ''job-1'') \<and>
   downloadAnswer (world ten_fail sixty) = Inr sixty \<and>
   (\<exists>t w. processInvoiceFile (world ten_fail sixty) ''key'' ''march.csv'' = (t @ [JobUpdate ''job-1'' w], None) \<and>
      jobWrites t = [initialJob] \<and> jw_status w = COMPLETED \<and> jw_totalInvoices w = Some 60 \<and>
      jw_successfulInvoices w = Some 50 \<and> jw_failedInvoices w = Some 10)"
proof -
  have h: "jobCreateAnswer (world ten_fail sixty) = JobCreateResult None (Some ''job-1'')"
    "''job-1'' \<noteq> []" "downloadAnswer (world ten_fail sixty) = Inr sixty"
    by (simp_all add: world_def)
  have n: "length sixty = 60" by (simp add: sixty_def)
  from final_status_and_counts [OF fair_world h, of "''key''" "''march.csv''"]
  obtain t w where
    r: "processInvoiceFile (world ten_fail sixty) ''key'' ''march.csv'' = (t @ [JobUpdate ''job-1'' w], None)"
      "jobWrites t = [initialJob]" "jw_totalInvoices w = Some (length sixty)"
      "jw_successfulInvoices w = Some (length (filter (succeeded (world ten_fail sixty)) (numbered 0 sixty)))"
      "jw_failedInvoices w = Some (length (filter (\<lambda>p. \<not> succeeded (world ten_fail sixty) p) (numbered 0 sixty)))"
      "(jw_status w = FAILED) =
         (length (filter (succeeded (world ten_fail sixty)) (numbered 0 sixty)) = 0 \<and> 0 < length sixty)"
      "jw_status w \<noteq> FAILED \<longrightarrow> jw_status w = COMPLETED"
    by blast
  have "jw_status w = COMPLETED" using r(6,7) by (simp add: eval_sixty)
  then show ?thesis using r(1-5) h fair_world by (simp add: eval_sixty n)
qed











lemma process_incomplete:
  "\<not> completes env \<Longrightarrow>
   (jobWrites (fst (processInvoiceFile env fileKey fileName)) = [initialJob] \<or>
    (\<exists>m. jobWrites (fst (processInvoiceFile env fileKey fileName)) = [initialJob, failedJob m])) \<and>
   snd (processInvoiceFile env fileKey fileName) \<noteq> None"
  by (auto simp: completes_def processInvoiceFile_def Let_def jobWrites_def List.map_filter_simps
      split: job_create_result.splits option.splits sum.splits list.splits)

lemma jobWrites_append: "jobWrites (a @ b) = jobWrites a @ jobWrites b"
  by (simp add: jobWrites_def map_filter_append)

lemma completes_iff:
  "completes env = (\<exists>jobId xs. jobCreateAnswer env = JobCreateResult None (Some jobId) \<and> jobId \<noteq> [] \<and>
      downloadAnswer env = Inr xs)"
  by (auto simp: completes_def split: job_create_result.splits option.splits sum.splits)

text \<open>
  C9, as the code has it. The creation of the job record is the first write of every run
  and sets the three counts to 0, with status PROCESSING. A run that gets through the
  loop writes the job once more, the final update, which sets the three counts. A run
  that ends with an exception writes the job at most once more, the FAILED update, which
  sets no count.
\<close>

theorem counts_written_at_creation_and_end:
  "\<exists>ws. jobWrites (fst (processInvoiceFile env fileKey fileName)) = initialJob # ws \<and>
     jw_status initialJob = PROCESSING \<and> jw_totalInvoices initialJob = Some 0 \<and>
     jw_successfulInvoices initialJob = Some 0 \<and> jw_failedInvoices initialJob = Some 0 \<and>
     (completes env \<longrightarrow>
        (\<exists>w. ws = [w] \<and> jw_totalInvoices w \<noteq> None \<and> jw_successfulInvoices w \<noteq> None \<and>
             jw_failedInvoices w \<noteq> None \<and> jw_status w \<in> {COMPLETED, FAILED}) \<and>
        snd (processInvoiceFile env fileKey fileName) = None) \<and>
     (\<not> completes env \<longrightarrow>
        (ws = [] \<or> (\<exists>m. ws = [failedJob m])) \<and> filter writesCounts ws = [] \<and>
        snd (processInvoiceFile env fileKey fileName) \<noteq> None)"
proof (cases "completes env")
  case True
  then obtain jobId xs where h: "jobCreateAnswer env = JobCreateResult None (Some jobId)" "jobId \<noteq> []"
      "downloadAnswer env = Inr xs" using completes_iff by blast
  let ?w = "updateData xs (finalState env fileKey fileName xs)"
  have "jobWrites (fst (processInvoiceFile env fileKey fileName)) = [initialJob, ?w]"
    unfolding process_completes[OF h] fst_conv jobWrites_append jobWrites_run
    by (simp add: jobWrites_def List.map_filter_simps)
  moreover have "snd (processInvoiceFile env fileKey fileName) = None"
    unfolding process_completes[OF h] by simp
  moreover have "jw_totalInvoices ?w \<noteq> None \<and> jw_successfulInvoices ?w \<noteq> None \<and>
             jw_failedInvoices ?w \<noteq> None \<and> jw_status ?w \<in> {COMPLETED, FAILED}"
    by (simp add: updateData_def finalStatus_def)
  ultimately show ?thesis using True by (simp add: initialJob_def)
next
  case False
  from process_incomplete[OF False, of fileKey fileName]
  have "(jobWrites (fst (processInvoiceFile env fileKey fileName)) = [initialJob] \<or>
    (\<exists>m. jobWrites (fst (processInvoiceFile env fileKey fileName)) = [initialJob, failedJob m]))"
    and "snd (processInvoiceFile env fileKey fileName) \<noteq> None" by simp_all
  then show ?thesis using False by (auto simp: initialJob_def failedJob_def writesCounts_def)
qed

theorem counts_written_at_creation_and_end_witness:
  "completes (world ten_fail [sample_invoice]) \<and>
   \<not> completes ((world ten_fail [sample_invoice])\<lparr>downloadAnswer := Inl ''Failed to download file: 403 Forbidden''\<rparr>) \<and>
   (\<exists>w. jobWrites (fst (processInvoiceFile (world ten_fail [sample_invoice]) ''key'' ''march.csv'')) =
          [initialJob, w] \<and> jw_totalInvoices w \<noteq> None) \<and>
   filter writesCounts (tl (jobWrites (fst (processInvoiceFile
       ((world ten_fail [sample_invoice])\<lparr>downloadAnswer := Inl ''Failed to download file: 403 Forbidden''\<rparr>)
       ''key'' ''march.csv'')))) = []"
proof -
  let ?e1 = "world ten_fail [sample_invoice]"
  let ?e2 = "(world ten_fail [sample_invoice])\<lparr>downloadAnswer := Inl ''Failed to download file: 403 Forbidden''\<rparr>"
  have c1: "completes ?e1" by (simp add: completes_def world_def)
  have c2: "\<not> completes ?e2" by (simp add: completes_def world_def)
  from counts_written_at_creation_and_end [of ?e1 "''key''" "''march.csv''"] c1
  have a: "\<exists>w. jobWrites (fst (processInvoiceFile ?e1 ''key'' ''march.csv'')) = [initialJob, w] \<and>
              jw_totalInvoices w \<noteq> None"
    by auto
  from counts_written_at_creation_and_end [of ?e2 "''key''" "''march.csv''"] c2
  have b: "filter writesCounts (tl (jobWrites (fst (processInvoiceFile ?e2 ''key'' ''march.csv'')))) = []"
    by auto
  show ?thesis using c1 c2 a b by blast
qed

text \<open>
  C9 as stated fails on every run that completes: the counts are written twice, first by
  the creation of the job, while its status is PROCESSING.
\<close>

theorem counts_written_twice_counterexample:
  "filter writesCounts (jobWrites (fst (processInvoiceFile (world ten_fail [sample_invoice]) ''key'' ''march.csv''))) =
     [\<lparr>jw_status = PROCESSING, jw_totalInvoices = Some 0, jw_successfulInvoices = Some 0,
       jw_failedInvoices = Some 0, jw_errorMessage = None\<rparr>,
      \<lparr>jw_status = COMPLETED, jw_totalInvoices = Some 1, jw_successfulInvoices = Some 1,
       jw_failedInvoices = Some 0, jw_errorMessage = None\<rparr>]"
  by code_simp

subsection \<open>The cascade of a file deletion\<close>

lemma deleteJob_failed:
  "invoicesListed env job invoices \<Longrightarrow> 0 < invoiceFailed env invoices \<Longrightarrow>
   deleteJob env job =
     (invoiceRequests invoices,
      Some (''Failed to delete '' @ showNat (invoiceFailed env invoices) @ '' out of '' @
            showNat (length invoices) @ '' invoices''))"
  by (auto simp: invoicesListed_def deleteJob_def Let_def invoiceRequests_def split: sum.splits option.splits)

lemma deleteJob_done:
  "invoicesListed env job invoices \<Longrightarrow> invoiceFailed env invoices = 0 \<Longrightarrow>
   fst (deleteJob env job) = invoiceRequests invoices @ [JobDelete job] \<and>
   (snd (deleteJob env job) = None) = (jobDeleteAnswer env job = Inr None)"
  by (auto simp: invoicesListed_def deleteJob_def Let_def invoiceRequests_def split: option.splits sum.splits)

lemma deleteJob_unlisted:
  "\<not> (\<exists>invoices. invoicesListed env job invoices) \<Longrightarrow>
   fst (deleteJob env job) = [] \<and> snd (deleteJob env job) \<noteq> None"
  by (auto simp: invoicesListed_def deleteJob_def Let_def split: option.splits sum.splits)

lemma deleteJob_through:
  "goesThrough env job invoices \<Longrightarrow>
   deleteJob env job = (invoiceRequests invoices @ [JobDelete job], None)"
  using deleteJob_done[of env job invoices]
  by (cases "deleteJob env job") (simp add: goesThrough_def)

lemma deleteJobs_all:
  "\<forall>j\<in>set jobs. deleteJob env j = (seg j, None) \<Longrightarrow>
   deleteJobs env jobs = (concat (map seg jobs), None)"
  by (induction jobs) simp_all

lemma deleteJobs_stop:
  "\<forall>j\<in>set before. deleteJob env j = (seg j, None) \<Longrightarrow> deleteJob env j = (t, Some m) \<Longrightarrow>
   deleteJobs env (before @ j # later) = (concat (map seg before) @ t, Some m)"
  by (induction before) simp_all

lemma invoiceRequests_no_job: "JobDelete x \<notin> set (invoiceRequests invoices)"
  by (induction invoices) (auto simp: invoiceRequests_def pdfRemovals_def List.map_filter_simps split: option.splits)

lemma jobs_in_before:
  "(JobDelete x \<in> set (concat (map (\<lambda>j. invoiceRequests (invoicesOf j) @ [JobDelete j]) before))) = (x \<in> set before)"
  by (induction before) (auto simp: invoiceRequests_no_job)

lemma handleDeleteFile_jobs:
  "deleteConfirm env \<Longrightarrow> jobsAnswer env = Inr (None, d) \<Longrightarrow> dataOrEmpty d = jobs \<Longrightarrow>
   handleDeleteFile env filePath =
     (case deleteJobs env jobs of
        (t, Some m) \<Rightarrow> (t, Some (''Failed to delete file and associated data: '' @ m))
      | (t, None) \<Rightarrow>
          (t @ [StorageRemove filePath],
           case removeAnswer env filePath of
             Some m \<Rightarrow> Some (''Failed to delete file and associated data: '' @ m)
           | None \<Rightarrow> None))"
  by (auto simp: handleDeleteFile_def split: option.splits prod.splits)

text \<open>
  C5, as the code has it. The user has confirmed and the jobs of the path are listed. The
  jobs are taken one after the other, and a job goes through when its invoices are
  listed, each of their deletions succeeds and so does the deletion of the job. For each
  job that goes through, the requests are the removal of every attached PDF, in the
  order of the invoices and whatever the earlier removals answered, then the deletion of
  every invoice record, then the deletion of the job. When every job goes through, the
  removal of the file comes last. At the first job that does not, the requests stop:
  when one or more of its \<open>N\<close> invoice deletions fail, after these deletions, with the
  error that names how many of the \<open>N\<close> failed, and the jobs deleted are the earlier
  ones; when the deletion of the job fails, after it; when its invoices are not listed,
  before any request for it. In none of these cases is the file removed.
\<close>

theorem cascade_order:
  assumes "deleteConfirm env" "jobsAnswer env = Inr (None, d)" "dataOrEmpty d = before @ rest"
    "\<forall>j\<in>set before. goesThrough env j (invoicesOf j)"
  shows "(rest = [] \<longrightarrow>
            fst (handleDeleteFile env filePath) =
              concat (map (\<lambda>j. invoiceRequests (invoicesOf j) @ [JobDelete j]) before) @
              [StorageRemove filePath]) \<and>
         (rest = job # later \<longrightarrow> invoicesListed env job invoices \<longrightarrow> 0 < invoiceFailed env invoices \<longrightarrow>
            handleDeleteFile env filePath =
              (concat (map (\<lambda>j. invoiceRequests (invoicesOf j) @ [JobDelete j]) before) @
               invoiceRequests invoices,
               Some (''Failed to delete file and associated data: Failed to delete '' @
                     showNat (invoiceFailed env invoices) @ '' out of '' @
                     showNat (length invoices) @ '' invoices'')) \<and>
            (\<forall>x. (JobDelete x \<in> set (fst (handleDeleteFile env filePath))) = (x \<in> set before))) \<and>
         (rest = job # later \<longrightarrow> invoicesListed env job invoices \<longrightarrow> invoiceFailed env invoices = 0 \<longrightarrow>
          jobDeleteAnswer env job \<noteq> Inr None \<longrightarrow>
            fst (handleDeleteFile env filePath) =
              concat (map (\<lambda>j. invoiceRequests (invoicesOf j) @ [JobDelete j]) before) @
              invoiceRequests invoices @ [JobDelete job] \<and>
            snd (handleDeleteFile env filePath) \<noteq> None) \<and>
         (rest = job # later \<longrightarrow> \<not> (\<exists>found. invoicesListed env job found) \<longrightarrow>
            fst (handleDeleteFile env filePath) =
              concat (map (\<lambda>j. invoiceRequests (invoicesOf j) @ [JobDelete j]) before) \<and>
            snd (handleDeleteFile env filePath) \<noteq> None)"
proof -
  let ?seg = "\<lambda>j. invoiceRequests (invoicesOf j) @ [JobDelete j]"
  have through: "\<forall>j\<in>set before. deleteJob env j = (?seg j, None)"
    using assms(4) deleteJob_through by blast
  note h = handleDeleteFile_jobs[OF assms(1,2,3), of filePath]
  have stop: "\<And>t m. rest = job # later \<Longrightarrow> deleteJob env job = (t, Some m) \<Longrightarrow>
     handleDeleteFile env filePath =
       (concat (map ?seg before) @ t, Some (''Failed to delete file and associated data: '' @ m))"
  proof -
    fix t m assume r: "rest = job # later" and dj: "deleteJob env job = (t, Some m)"
    have "deleteJobs env (before @ job # later) = (concat (map ?seg before) @ t, Some m)"
      using through dj by (rule deleteJobs_stop)
    then show "handleDeleteFile env filePath =
       (concat (map ?seg before) @ t, Some (''Failed to delete file and associated data: '' @ m))"
      unfolding h r by simp
  qed
  have p1: "rest = [] \<longrightarrow> fst (handleDeleteFile env filePath) = concat (map ?seg before) @ [StorageRemove filePath]"
  proof
    assume r: "rest = []"
    have "deleteJobs env before = (concat (map ?seg before), None)"
      using through by (rule deleteJobs_all)
    then show "fst (handleDeleteFile env filePath) = concat (map ?seg before) @ [StorageRemove filePath]"
      unfolding h r by simp
  qed
  have p2: "rest = job # later \<longrightarrow> invoicesListed env job invoices \<longrightarrow> 0 < invoiceFailed env invoices \<longrightarrow>
            handleDeleteFile env filePath =
              (concat (map ?seg before) @ invoiceRequests invoices,
               Some (''Failed to delete file and associated data: Failed to delete '' @
                     showNat (invoiceFailed env invoices) @ '' out of '' @
                     showNat (length invoices) @ '' invoices'')) \<and>
            (\<forall>x. (JobDelete x \<in> set (fst (handleDeleteFile env filePath))) = (x \<in> set before))"
  proof (intro impI)
    assume r: "rest = job # later" and l: "invoicesListed env job invoices" and f: "0 < invoiceFailed env invoices"
    have e: "handleDeleteFile env filePath =
              (concat (map ?seg before) @ invoiceRequests invoices,
               Some (''Failed to delete file and associated data: Failed to delete '' @
                     showNat (invoiceFailed env invoices) @ '' out of '' @
                     showNat (length invoices) @ '' invoices''))"
      using stop[OF r deleteJob_failed[OF l f]] by simp
    have "\<forall>x. (JobDelete x \<in> set (fst (handleDeleteFile env filePath))) = (x \<in> set before)"
      unfolding e using jobs_in_before[of _ invoicesOf before] invoiceRequests_no_job by auto
    with e show "handleDeleteFile env filePath =
              (concat (map ?seg before) @ invoiceRequests invoices,
               Some (''Failed to delete file and associated data: Failed to delete '' @
                     showNat (invoiceFailed env invoices) @ '' out of '' @
                     showNat (length invoices) @ '' invoices'')) \<and>
            (\<forall>x. (JobDelete x \<in> set (fst (handleDeleteFile env filePath))) = (x \<in> set before))"
      by blast
  qed
  have p3: "rest = job # later \<longrightarrow> invoicesListed env job invoices \<longrightarrow> invoiceFailed env invoices = 0 \<longrightarrow>
          jobDeleteAnswer env job \<noteq> Inr None \<longrightarrow>
            fst (handleDeleteFile env filePath) =
              concat (map ?seg before) @ invoiceRequests invoices @ [JobDelete job] \<and>
            snd (handleDeleteFile env filePath) \<noteq> None"
  proof (intro impI)
    assume r: "rest = job # later" and l: "invoicesListed env job invoices" and f: "invoiceFailed env invoices = 0"
      and a: "jobDeleteAnswer env job \<noteq> Inr None"
    obtain t r' where dj: "deleteJob env job = (t, r')" by (cases "deleteJob env job")
    with deleteJob_done[OF l f] a
    have "t = invoiceRequests invoices @ [JobDelete job]" "r' \<noteq> None" by simp_all
    then obtain m where "deleteJob env job = (invoiceRequests invoices @ [JobDelete job], Some m)"
      using dj by auto
    from stop[OF r this]
    show "fst (handleDeleteFile env filePath) =
              concat (map ?seg before) @ invoiceRequests invoices @ [JobDelete job] \<and>
            snd (handleDeleteFile env filePath) \<noteq> None"
      by simp
  qed
  have p4: "rest = job # later \<longrightarrow> \<not> (\<exists>found. invoicesListed env job found) \<longrightarrow>
            fst (handleDeleteFile env filePath) = concat (map ?seg before) \<and>
            snd (handleDeleteFile env filePath) \<noteq> None"
  proof (intro impI)
    assume r: "rest = job # later" and n: "\<not> (\<exists>found. invoicesListed env job found)"
    obtain t r' where dj: "deleteJob env job = (t, r')" by (cases "deleteJob env job")
    with deleteJob_unlisted[OF n] have "t = []" "r' \<noteq> None" by simp_all
    then obtain m where "deleteJob env job = ([], Some m)" using dj by auto
    from stop[OF r this]
    show "fst (handleDeleteFile env filePath) = concat (map ?seg before) \<and>
            snd (handleDeleteFile env filePath) \<noteq> None"
      by simp
  qed
  from p1 p2 p3 p4 show ?thesis by blast
qed


lemma eval_delete_world:
  "invoiceRequests five_invoices =
     [StorageRemove ''pdf/a.pdf'', StorageRemove ''pdf/b.pdf'',
      InvoiceDelete ''i1'', InvoiceDelete ''i2'', InvoiceDelete ''i3'', InvoiceDelete ''i4'',
      InvoiceDelete ''i5'']"
  "invoiceFailed (delete_world (\<lambda>i. if i = ''i3'' then DeleteThrew else Deleted)) five_invoices = 1"
  "length five_invoices = 5" "showNat (Suc 0) = ''1''" "showNat 5 = ''5''"
  "invoiceRequests (invoicesOfJob ''job-1'') =
     [StorageRemove ''pdf/a.pdf'', InvoiceDelete ''i1'', InvoiceDelete ''i2'']"
  "invoiceRequests (invoicesOfJob ''job-2'') = [StorageRemove ''pdf/b.pdf'', InvoiceDelete ''i3'']"
  "invoiceFailed (two_jobs_world (\<lambda>i. Deleted)) (invoicesOfJob ''job-1'') = 0"
  "invoiceFailed (two_jobs_world (\<lambda>i. Deleted)) (invoicesOfJob ''job-2'') = 0"
  "invoiceFailed (two_jobs_world (\<lambda>i. if i = ''i3'' then DeleteThrew else Deleted)) (invoicesOfJob ''job-1'') = 0"
  "invoiceFailed (two_jobs_world (\<lambda>i. if i = ''i3'' then DeleteThrew else Deleted)) (invoicesOfJob ''job-2'') = 1"
  "length (invoicesOfJob ''job-2'') = 1"
  by code_simp+

theorem cascade_order_witness:
  "goesThrough (two_jobs_world (\<lambda>i. Deleted)) ''job-1'' (invoicesOfJob ''job-1'') \<and>
   goesThrough (two_jobs_world (\<lambda>i. Deleted)) ''job-2'' (invoicesOfJob ''job-2'') \<and>
   fst (handleDeleteFile (two_jobs_world (\<lambda>i. Deleted)) ''files/1-march.csv'') =
     [StorageRemove ''pdf/a.pdf'', InvoiceDelete ''i1'', InvoiceDelete ''i2'', JobDelete ''job-1'',
      StorageRemove ''pdf/b.pdf'', InvoiceDelete ''i3'', JobDelete ''job-2'',
      StorageRemove ''files/1-march.csv''] \<and>
   goesThrough (two_jobs_world (\<lambda>i. if i = ''i3'' then DeleteThrew else Deleted)) ''job-1'' (invoicesOfJob ''job-1'') \<and>
   invoicesListed (two_jobs_world (\<lambda>i. if i = ''i3'' then DeleteThrew else Deleted)) ''job-2'' (invoicesOfJob ''job-2'') \<and>
   0 < invoiceFailed (two_jobs_world (\<lambda>i. if i = ''i3'' then DeleteThrew else Deleted)) (invoicesOfJob ''job-2'') \<and>
   handleDeleteFile (two_jobs_world (\<lambda>i. if i = ''i3'' then DeleteThrew else Deleted)) ''files/1-march.csv'' =
     ([StorageRemove ''pdf/a.pdf'', InvoiceDelete ''i1'', InvoiceDelete ''i2'', JobDelete ''job-1'',
       StorageRemove ''pdf/b.pdf'', InvoiceDelete ''i3''],
      Some ''Failed to delete file and associated data: Failed to delete 1 out of 1 invoices'') \<and>
   invoicesListed (delete_world (\<lambda>i. if i = ''i3'' then DeleteThrew else Deleted)) ''job-1'' five_invoices \<and>
   removeAnswer (delete_world (\<lambda>i. if i = ''i3'' then DeleteThrew else Deleted)) ''pdf/a.pdf'' = Some ''AccessDenied'' \<and>
   handleDeleteFile (delete_world (\<lambda>i. if i = ''i3'' then DeleteThrew else Deleted)) ''files/1-march.csv'' =
     ([StorageRemove ''pdf/a.pdf'', StorageRemove ''pdf/b.pdf'',
       InvoiceDelete ''i1'', InvoiceDelete ''i2'', InvoiceDelete ''i3'', InvoiceDelete ''i4'',
       InvoiceDelete ''i5''],
      Some ''Failed to delete file and associated data: Failed to delete 1 out of 5 invoices'')"
proof -
  let ?ok = "two_jobs_world (\<lambda>i. Deleted)"
  let ?bad = "two_jobs_world (\<lambda>i. if i = ''i3'' then DeleteThrew else Deleted)"
  let ?one = "delete_world (\<lambda>i. if i = ''i3'' then DeleteThrew else Deleted)"
  have ok: "deleteConfirm ?ok" "jobsAnswer ?ok = Inr (None, Some [''job-1'', ''job-2''])"
    "dataOrEmpty (Some [''job-1'', ''job-2'']) = [''job-1'', ''job-2''] @ []"
    by (simp_all add: two_jobs_world_def dataOrEmpty_def)
  have okg: "goesThrough ?ok ''job-1'' (invoicesOfJob ''job-1'')"
    "goesThrough ?ok ''job-2'' (invoicesOfJob ''job-2'')"
    using eval_delete_world(8,9)
    by (simp_all add: goesThrough_def invoicesListed_def two_jobs_world_def dataOrEmpty_def)
  then have okt: "\<forall>j\<in>set [''job-1'', ''job-2'']. goesThrough ?ok j (invoicesOfJob j)" by simp
  have bad: "deleteConfirm ?bad" "jobsAnswer ?bad = Inr (None, Some [''job-1'', ''job-2''])"
    "dataOrEmpty (Some [''job-1'', ''job-2'']) = [''job-1''] @ [''job-2'']"
    by (simp_all add: two_jobs_world_def dataOrEmpty_def)
  have badg: "goesThrough ?bad ''job-1'' (invoicesOfJob ''job-1'')"
    using eval_delete_world(10)
    by (simp add: goesThrough_def invoicesListed_def two_jobs_world_def dataOrEmpty_def)
  then have badt: "\<forall>j\<in>set [''job-1'']. goesThrough ?bad j (invoicesOfJob j)" by simp
  have badl: "invoicesListed ?bad ''job-2'' (invoicesOfJob ''job-2'')"
    by (simp add: invoicesListed_def two_jobs_world_def dataOrEmpty_def)
  have badf: "0 < invoiceFailed ?bad (invoicesOfJob ''job-2'')" by (simp add: eval_delete_world(11))
  have one: "deleteConfirm ?one" "jobsAnswer ?one = Inr (None, Some [''job-1''])"
    "dataOrEmpty (Some [''job-1'']) = [] @ [''job-1'']"
    "\<forall>j\<in>set []. goesThrough ?one j (invoicesOfJob j)"
    "invoicesListed ?one ''job-1'' five_invoices"
    "removeAnswer ?one ''pdf/a.pdf'' = Some ''AccessDenied''"
    by (simp_all add: delete_world_def dataOrEmpty_def invoicesListed_def)
  have onef: "0 < invoiceFailed ?one five_invoices" by (simp add: eval_delete_world(2))
  have a: "fst (handleDeleteFile ?ok ''files/1-march.csv'') =
     [StorageRemove ''pdf/a.pdf'', InvoiceDelete ''i1'', InvoiceDelete ''i2'', JobDelete ''job-1'',
      StorageRemove ''pdf/b.pdf'', InvoiceDelete ''i3'', JobDelete ''job-2'',
      StorageRemove ''files/1-march.csv'']"
    using cascade_order [OF ok okt, where filePath = "''files/1-march.csv''", THEN conjunct1]
    by (simp add: eval_delete_world(6,7))
  have b: "handleDeleteFile ?bad ''files/1-march.csv'' =
     ([StorageRemove ''pdf/a.pdf'', InvoiceDelete ''i1'', InvoiceDelete ''i2'', JobDelete ''job-1'',
       StorageRemove ''pdf/b.pdf'', InvoiceDelete ''i3''],
      Some ''Failed to delete file and associated data: Failed to delete 1 out of 1 invoices'')"
    using cascade_order [OF bad badt, where job = "''job-2''" and later = "[]"
          and invoices = "invoicesOfJob ''job-2''" and filePath = "''files/1-march.csv''",
        THEN conjunct2, THEN conjunct1] badl badf
    by (simp add: eval_delete_world(4,6,7,11,12))
  have c: "handleDeleteFile ?one ''files/1-march.csv'' =
     ([StorageRemove ''pdf/a.pdf'', StorageRemove ''pdf/b.pdf'',
       InvoiceDelete ''i1'', InvoiceDelete ''i2'', InvoiceDelete ''i3'', InvoiceDelete ''i4'',
       InvoiceDelete ''i5''],
      Some ''Failed to delete file and associated data: Failed to delete 1 out of 5 invoices'')"
    using cascade_order [OF one(1,2,3,4), where job = "''job-1''" and later = "[]"
          and invoices = five_invoices and filePath = "''files/1-march.csv''",
        THEN conjunct2, THEN conjunct1] one(5) onef
    by (simp add: eval_delete_world(1,2,3,4,5))
  show ?thesis using okg a badg badl badf b one(5,6) c by blast
qed

text \<open>
  C5 as stated fails when two jobs are listed for the path. The first job is deleted
  before the PDF and the record of the second job are, and it stays deleted although the
  record deletion of the second job fails; the error counts 1 out of 1, where three
  record deletions were sent.
\<close>

theorem cascade_jobs_counterexample:
  "jobsAnswer (two_jobs_world (\<lambda>i. if i = ''i3'' then DeleteThrew else Deleted)) =
     Inr (None, Some [''job-1'', ''job-2'']) \<and>
   invoiceDeleteAnswer (two_jobs_world (\<lambda>i. if i = ''i3'' then DeleteThrew else Deleted)) ''i3'' = DeleteThrew \<and>
   handleDeleteFile (two_jobs_world (\<lambda>i. if i = ''i3'' then DeleteThrew else Deleted)) ''files/1-march.csv'' =
     ([StorageRemove ''pdf/a.pdf'', InvoiceDelete ''i1'', InvoiceDelete ''i2'', JobDelete ''job-1'',
       StorageRemove ''pdf/b.pdf'', InvoiceDelete ''i3''],
      Some ''Failed to delete file and associated data: Failed to delete 1 out of 1 invoices'')"
  by code_simp

subsection \<open>Detaching a PDF changes four fields and removes nothing\<close>

lemma applyUpdate_detach:
  "applyUpdate ((noUpdate i)\<lparr>u_pdfS3Key := Some None, u_pdfS3FullPath := Some None,
                u_pdfFileName := Some None, u_pdfUploadedAt := Some None\<rparr>) r =
   r\<lparr>pdfS3Key := None, pdfS3FullPath := None, pdfFileName := None, pdfUploadedAt := None\<rparr>"
  by (simp add: applyUpdate_def noUpdate_def)

text \<open>
  C10. \<open>handlePdfDelete\<close> sends no removal to the object store: it sends nothing, or one
  update of the invoice record, and it sends that update whenever the invoice has a PDF
  key and an id and the user confirms. On any record the update sets the four PDF fields
  to null and keeps every other field.
\<close>

theorem pdf_delete_keeps_object:
  "(\<forall>e\<in>set (fst (handlePdfDelete env invoice)). \<forall>p. e \<noteq> StorageRemove p) \<and>
   (fst (handlePdfDelete env invoice) = [] \<or>
    (\<exists>u. fst (handlePdfDelete env invoice) = [InvoiceUpdate u] \<and> u_id u = si_id invoice \<and>
         applyUpdate u r =
           r\<lparr>pdfS3Key := None, pdfS3FullPath := None, pdfFileName := None, pdfUploadedAt := None\<rparr>)) \<and>
   (truthy (pdfS3Key invoice) \<and> si_id invoice \<noteq> [] \<and> pdfConfirm env \<longrightarrow>
      fst (handlePdfDelete env invoice) \<noteq> [])"
proof -
  let ?u = "(noUpdate (si_id invoice))\<lparr>u_pdfS3Key := Some None, u_pdfS3FullPath := Some None,
                u_pdfFileName := Some None, u_pdfUploadedAt := Some None\<rparr>"
  have t: "fst (handlePdfDelete env invoice) = [] \<or>
           fst (handlePdfDelete env invoice) = [InvoiceUpdate ?u]"
    by (cases "updateAnswer env") (simp_all add: handlePdfDelete_def Let_def)
  have i: "u_id ?u = si_id invoice" by (simp add: noUpdate_def)
  have a: "applyUpdate ?u r =
           r\<lparr>pdfS3Key := None, pdfS3FullPath := None, pdfFileName := None, pdfUploadedAt := None\<rparr>"
    by (rule applyUpdate_detach)
  have n: "truthy (pdfS3Key invoice) \<and> si_id invoice \<noteq> [] \<and> pdfConfirm env \<longrightarrow>
      fst (handlePdfDelete env invoice) \<noteq> []"
    by (cases "updateAnswer env") (simp_all add: handlePdfDelete_def Let_def)
  have r: "\<forall>e\<in>set (fst (handlePdfDelete env invoice)). \<forall>p. e \<noteq> StorageRemove p"
    using t by auto
  have u: "fst (handlePdfDelete env invoice) = [] \<or>
    (\<exists>u. fst (handlePdfDelete env invoice) = [InvoiceUpdate u] \<and> u_id u = si_id invoice \<and>
         applyUpdate u r =
           r\<lparr>pdfS3Key := None, pdfS3FullPath := None, pdfFileName := None, pdfUploadedAt := None\<rparr>)"
    using t i a by blast
  show ?thesis using r u n by blast
qed

theorem pdf_delete_keeps_object_witness:
  "truthy (pdfS3Key (stored ''i2'' (Some ''pdf/a.pdf''))) \<and> si_id (stored ''i2'' (Some ''pdf/a.pdf'')) \<noteq> [] \<and>
   pdfConfirm \<lparr>pdfConfirm = True, updateAnswer = Updated\<rparr> \<and>
   (\<exists>u. fst (handlePdfDelete \<lparr>pdfConfirm = True, updateAnswer = Updated\<rparr> (stored ''i2'' (Some ''pdf/a.pdf''))) =
          [InvoiceUpdate u] \<and>
        applyUpdate u (stored ''i2'' (Some ''pdf/a.pdf'')) = stored ''i2'' None)"
proof -
  let ?env = "\<lparr>pdfConfirm = True, updateAnswer = Updated\<rparr>"
  let ?i = "stored ''i2'' (Some ''pdf/a.pdf'')"
  have h: "truthy (pdfS3Key ?i)" "si_id ?i \<noteq> []" "pdfConfirm ?env"
    by (simp_all add: stored_def truthy_def)
  have s: "?i\<lparr>pdfS3Key := None, pdfS3FullPath := None, pdfFileName := None, pdfUploadedAt := None\<rparr> =
           stored ''i2'' None"
    by (simp add: stored_def)
  show ?thesis
    using pdf_delete_keeps_object [of ?env ?i ?i] h s by auto
qed

end
